theory Spec2Isabelle
  imports Main
begin

section \<open>The automation tables of the schema\<close>

text \<open>
  The schema declares the tables \<open>automations\<close>, \<open>automation_nodes\<close>,
  \<open>automation_edges\<close>, \<open>automation_executions\<close> and
  \<open>automation_execution_logs\<close>, their primary keys, unique constraints and foreign
  keys with their \<open>onDelete\<close> actions. A row is a record of the columns that the keys
  and the properties below refer to; a table is the list of its rows in insertion order.
  The nullable columns that reference tables outside this group (\<open>channel_id\<close>,
  \<open>created_by\<close>, \<open>contact_id\<close>, \<open>conversation_id\<close>) and the timestamps and
  layout columns are left out: the rows modelled are the rows that hold NULL there.
\<close>

record automation =
  a_id :: string
  a_name :: string
  a_trigger :: string
  a_status :: "string option"

record automationNode =
  n_id :: string
  n_automationId :: string
  n_nodeId :: string
  n_type :: string
  n_subtype :: "string option"
  n_connections :: "string list"

record automationEdge =
  e_id :: string
  e_automationId :: string
  e_sourceNodeId :: string
  e_targetNodeId :: string

record automationExecution =
  x_id :: string
  x_automationId :: string
  x_status :: string
  x_currentNodeId :: "string option"
  x_executionPath :: "string list"
  x_result :: "string option"
  x_error :: "string option"

record automationExecutionLog =
  l_id :: string
  l_executionId :: string
  l_nodeId :: string
  l_nodeType :: string
  l_status :: string
  l_error :: "string option"

record db =
  automations :: "automation list"
  automationNodes :: "automationNode list"
  automationEdges :: "automationEdge list"
  automationExecutions :: "automationExecution list"
  automationExecutionLogs :: "automationExecutionLog list"

definition empty_db :: db where
  "empty_db = \<lparr>automations = [], automationNodes = [], automationEdges = [],
     automationExecutions = [], automationExecutionLogs = []\<rparr>"

text \<open>A statement that breaks a constraint is rejected with the name of the constraint.\<close>

datatype db_error = UniqueViolation string | ForeignKeyViolation string
  | InvalidTextRepresentation string

subsection \<open>Row inserts\<close>

text \<open>
  An insert returns the error, if any, and the store after the statement. A rejected
  statement leaves the store as it was. Primary keys and unique constraints are checked
  before the foreign keys.
\<close>

definition insert_automation :: "automation \<Rightarrow> db \<Rightarrow> db_error option \<times> db" where
  "insert_automation a d =
     (if a_id a \<in> set (map a_id (automations d))
      then (Some (UniqueViolation ''automations_pkey''), d)
      else (None, d\<lparr>automations := automations d @ [a]\<rparr>))"

text \<open>
  \<open>automation_nodes\<close>: primary key \<open>id\<close>; \<open>node_id\<close> is declared \<open>unique()\<close> on the
  column; \<open>automation_nodes_unique_idx\<close> is unique on (\<open>automation_id\<close>, \<open>node_id\<close>);
  \<open>automation_id\<close> references \<open>automations.id\<close>.
\<close>

definition insert_node :: "automationNode \<Rightarrow> db \<Rightarrow> db_error option \<times> db" where
  "insert_node n d =
     (if n_id n \<in> set (map n_id (automationNodes d))
      then (Some (UniqueViolation ''automation_nodes_pkey''), d)
      else if n_nodeId n \<in> set (map n_nodeId (automationNodes d))
      then (Some (UniqueViolation ''automation_nodes_node_id_unique''), d)
      else if (n_automationId n, n_nodeId n)
                \<in> set (map (\<lambda>m. (n_automationId m, n_nodeId m)) (automationNodes d))
      then (Some (UniqueViolation ''automation_nodes_unique_idx''), d)
      else if n_automationId n \<notin> set (map a_id (automations d))
      then (Some (ForeignKeyViolation ''automation_nodes_automation_id_fk''), d)
      else (None, d\<lparr>automationNodes := automationNodes d @ [n]\<rparr>))"

text \<open>
  \<open>automation_edges\<close>: primary key \<open>id\<close>; \<open>automation_edges_unique_idx\<close> is unique on
  (\<open>automation_id\<close>, \<open>source_node_id\<close>, \<open>target_node_id\<close>); \<open>automation_id\<close> references
  \<open>automations.id\<close>; \<open>source_node_id\<close> and \<open>target_node_id\<close> each reference
  \<open>automation_nodes.node_id\<close>.
\<close>

definition insert_edge :: "automationEdge \<Rightarrow> db \<Rightarrow> db_error option \<times> db" where
  "insert_edge e d =
     (if e_id e \<in> set (map e_id (automationEdges d))
      then (Some (UniqueViolation ''automation_edges_pkey''), d)
      else if (e_automationId e, e_sourceNodeId e, e_targetNodeId e)
                \<in> set (map (\<lambda>f. (e_automationId f, e_sourceNodeId f, e_targetNodeId f))
                        (automationEdges d))
      then (Some (UniqueViolation ''automation_edges_unique_idx''), d)
      else if e_automationId e \<notin> set (map a_id (automations d))
      then (Some (ForeignKeyViolation ''automation_edges_automation_id_fk''), d)
      else if e_sourceNodeId e \<notin> set (map n_nodeId (automationNodes d))
      then (Some (ForeignKeyViolation ''automation_edges_source_node_id_fk''), d)
      else if e_targetNodeId e \<notin> set (map n_nodeId (automationNodes d))
      then (Some (ForeignKeyViolation ''automation_edges_target_node_id_fk''), d)
      else (None, d\<lparr>automationEdges := automationEdges d @ [e]\<rparr>))"

definition insert_execution :: "automationExecution \<Rightarrow> db \<Rightarrow> db_error option \<times> db" where
  "insert_execution x d =
     (if x_id x \<in> set (map x_id (automationExecutions d))
      then (Some (UniqueViolation ''automation_executions_pkey''), d)
      else if x_automationId x \<notin> set (map a_id (automations d))
      then (Some (ForeignKeyViolation ''automation_executions_automation_id_fk''), d)
      else (None, d\<lparr>automationExecutions := automationExecutions d @ [x]\<rparr>))"

definition insert_log :: "automationExecutionLog \<Rightarrow> db \<Rightarrow> db_error option \<times> db" where
  "insert_log l d =
     (if l_id l \<in> set (map l_id (automationExecutionLogs d))
      then (Some (UniqueViolation ''automation_execution_logs_pkey''), d)
      else if l_executionId l \<notin> set (map x_id (automationExecutions d))
      then (Some (ForeignKeyViolation ''automation_execution_logs_execution_id_fk''), d)
      else (None, d\<lparr>automationExecutionLogs := automationExecutionLogs d @ [l]\<rparr>))"

subsection \<open>Row deletes and their cascades\<close>

text \<open>
  Every foreign key of these five tables is declared \<open>onDelete: "cascade"\<close>: deleting a
  referenced row deletes the rows that reference it, and so on along the references.
  Deleting a key that is not stored deletes nothing.
\<close>

definition delete_log :: "string \<Rightarrow> db \<Rightarrow> db" where
  "delete_log lid d =
     d\<lparr>automationExecutionLogs := filter (\<lambda>l. l_id l \<noteq> lid) (automationExecutionLogs d)\<rparr>"

text \<open>\<open>automation_execution_logs.execution_id\<close> cascades from \<open>automation_executions.id\<close>.\<close>

definition delete_execution :: "string \<Rightarrow> db \<Rightarrow> db" where
  "delete_execution xid d =
     d\<lparr>automationExecutions := filter (\<lambda>x. x_id x \<noteq> xid) (automationExecutions d),
       automationExecutionLogs :=
         filter (\<lambda>l. l_executionId l \<noteq> xid) (automationExecutionLogs d)\<rparr>"

definition delete_edge :: "string \<Rightarrow> db \<Rightarrow> db" where
  "delete_edge eid d =
     d\<lparr>automationEdges := filter (\<lambda>e. e_id e \<noteq> eid) (automationEdges d)\<rparr>"

text \<open>
  Deleting a node row (by its primary key) deletes the edges whose source or target
  references its \<open>node_id\<close>.
\<close>

definition delete_node :: "string \<Rightarrow> db \<Rightarrow> db" where
  "delete_node nid d =
     (let gone = map n_nodeId (filter (\<lambda>n. n_id n = nid) (automationNodes d))
      in d\<lparr>automationNodes := filter (\<lambda>n. n_id n \<noteq> nid) (automationNodes d),
           automationEdges :=
             filter (\<lambda>e. e_sourceNodeId e \<notin> set gone \<and> e_targetNodeId e \<notin> set gone)
               (automationEdges d)\<rparr>)"

text \<open>
  Deleting an automation deletes its nodes, its edges and its executions
  (\<open>automation_nodes.automation_id\<close>, \<open>automation_edges.automation_id\<close> and
  \<open>automation_executions.automation_id\<close> all cascade), then the edges that reference a
  deleted node and the log entries that reference a deleted execution.
\<close>

definition delete_automation :: "string \<Rightarrow> db \<Rightarrow> db" where
  "delete_automation aid d =
     (if aid \<notin> set (map a_id (automations d)) then d
      else
        let goneNodes = map n_nodeId (filter (\<lambda>n. n_automationId n = aid) (automationNodes d));
            goneExecs = map x_id (filter (\<lambda>x. x_automationId x = aid) (automationExecutions d))
        in d\<lparr>automations := filter (\<lambda>a. a_id a \<noteq> aid) (automations d),
             automationNodes := filter (\<lambda>n. n_automationId n \<noteq> aid) (automationNodes d),
             automationEdges :=
               filter (\<lambda>e. e_automationId e \<noteq> aid \<and> e_sourceNodeId e \<notin> set goneNodes
                            \<and> e_targetNodeId e \<notin> set goneNodes) (automationEdges d),
             automationExecutions :=
               filter (\<lambda>x. x_automationId x \<noteq> aid) (automationExecutions d),
             automationExecutionLogs :=
               filter (\<lambda>l. l_executionId l \<notin> set goneExecs) (automationExecutionLogs d)\<rparr>)"

subsection \<open>The declared constraints as a predicate on the store\<close>

definition pk_ok :: "db \<Rightarrow> bool" where
  "pk_ok d \<longleftrightarrow>
     distinct (map a_id (automations d)) \<and>
     distinct (map n_id (automationNodes d)) \<and>
     distinct (map e_id (automationEdges d)) \<and>
     distinct (map x_id (automationExecutions d)) \<and>
     distinct (map l_id (automationExecutionLogs d))"

definition unique_ok :: "db \<Rightarrow> bool" where
  "unique_ok d \<longleftrightarrow>
     distinct (map n_nodeId (automationNodes d)) \<and>
     distinct (map (\<lambda>n. (n_automationId n, n_nodeId n)) (automationNodes d)) \<and>
     distinct (map (\<lambda>e. (e_automationId e, e_sourceNodeId e, e_targetNodeId e))
                 (automationEdges d))"

definition fk_ok :: "db \<Rightarrow> bool" where
  "fk_ok d \<longleftrightarrow>
     list_all (\<lambda>n. n_automationId n \<in> set (map a_id (automations d))) (automationNodes d) \<and>
     list_all (\<lambda>e. e_automationId e \<in> set (map a_id (automations d)) \<and>
                   e_sourceNodeId e \<in> set (map n_nodeId (automationNodes d)) \<and>
                   e_targetNodeId e \<in> set (map n_nodeId (automationNodes d)))
       (automationEdges d) \<and>
     list_all (\<lambda>x. x_automationId x \<in> set (map a_id (automations d)))
       (automationExecutions d) \<and>
     list_all (\<lambda>l. l_executionId l \<in> set (map x_id (automationExecutions d)))
       (automationExecutionLogs d)"

definition db_ok :: "db \<Rightarrow> bool" where
  "db_ok d \<longleftrightarrow> pk_ok d \<and> unique_ok d \<and> fk_ok d"

text \<open>The stores that the row statements can produce from the empty store.\<close>

inductive reachable :: "db \<Rightarrow> bool" where
  init: "reachable empty_db"
| ins_automation: "reachable d \<Longrightarrow> reachable (snd (insert_automation a d))"
| ins_node: "reachable d \<Longrightarrow> reachable (snd (insert_node n d))"
| ins_edge: "reachable d \<Longrightarrow> reachable (snd (insert_edge e d))"
| ins_execution: "reachable d \<Longrightarrow> reachable (snd (insert_execution x d))"
| ins_log: "reachable d \<Longrightarrow> reachable (snd (insert_log l d))"
| del_automation: "reachable d \<Longrightarrow> reachable (delete_automation k d)"
| del_node: "reachable d \<Longrightarrow> reachable (delete_node k d)"
| del_edge: "reachable d \<Longrightarrow> reachable (delete_edge k d)"
| del_execution: "reachable d \<Longrightarrow> reachable (delete_execution k d)"
| del_log: "reachable d \<Longrightarrow> reachable (delete_log k d)"

text \<open>Views used by the properties.\<close>

definition nodes_of :: "db \<Rightarrow> string \<Rightarrow> automationNode list" where
  "nodes_of d aid = filter (\<lambda>n. n_automationId n = aid) (automationNodes d)"

definition edges_of :: "db \<Rightarrow> string \<Rightarrow> automationEdge list" where
  "edges_of d aid = filter (\<lambda>e. e_automationId e = aid) (automationEdges d)"

definition executions_of :: "db \<Rightarrow> string \<Rightarrow> automationExecution list" where
  "executions_of d aid = filter (\<lambda>x. x_automationId x = aid) (automationExecutions d)"

definition logs_of :: "db \<Rightarrow> string \<Rightarrow> automationExecutionLog list" where
  "logs_of d xid = filter (\<lambda>l. l_executionId l = xid) (automationExecutionLogs d)"

subsection \<open>Properties of edges and nodes, and sample rows\<close>

text \<open>Both endpoints of an edge are nodes of the automation the edge belongs to.\<close>

definition endpoints_in_automation :: "db \<Rightarrow> automationEdge \<Rightarrow> bool" where
  "endpoints_in_automation d e \<longleftrightarrow>
     e_sourceNodeId e \<in> set (map n_nodeId (nodes_of d (e_automationId e))) \<and>
     e_targetNodeId e \<in> set (map n_nodeId (nodes_of d (e_automationId e)))"

text \<open>The three references of an edge resolve: its automation and both endpoints are stored.\<close>

definition endpoints_stored :: "db \<Rightarrow> automationEdge \<Rightarrow> bool" where
  "endpoints_stored d e \<longleftrightarrow>
     e_automationId e \<in> set (map a_id (automations d)) \<and>
     e_sourceNodeId e \<in> set (map n_nodeId (automationNodes d)) \<and>
     e_targetNodeId e \<in> set (map n_nodeId (automationNodes d))"

definition has_trigger_node :: "db \<Rightarrow> string \<Rightarrow> bool" where
  "has_trigger_node d aid \<longleftrightarrow> list_ex (\<lambda>n. n_type n = ''trigger'') (nodes_of d aid)"

definition auto_A :: automation where
  "auto_A = \<lparr>a_id = ''A'', a_name = ''welcome'', a_trigger = ''message_received'',
     a_status = Some ''active''\<rparr>"

definition auto_B :: automation where
  "auto_B = \<lparr>a_id = ''B'', a_name = ''follow up'', a_trigger = ''keyword'',
     a_status = Some ''inactive''\<rparr>"

definition node_A :: automationNode where
  "node_A = \<lparr>n_id = ''r1'', n_automationId = ''A'', n_nodeId = ''t1'', n_type = ''trigger'',
     n_subtype = None, n_connections = []\<rparr>"

definition node_B :: automationNode where
  "node_B = \<lparr>n_id = ''r2'', n_automationId = ''B'', n_nodeId = ''s2'', n_type = ''action'',
     n_subtype = Some ''send_message'', n_connections = []\<rparr>"

text \<open>A second row for node-identifier \<open>t1\<close> in automation \<open>A\<close>.\<close>

definition node_dup :: automationNode where
  "node_dup = \<lparr>n_id = ''r3'', n_automationId = ''A'', n_nodeId = ''t1'', n_type = ''action'',
     n_subtype = None, n_connections = []\<rparr>"

text \<open>An edge of automation \<open>A\<close> from a node of \<open>A\<close> to a node of \<open>B\<close>.\<close>

definition edge_cross :: automationEdge where
  "edge_cross = \<lparr>e_id = ''e1'', e_automationId = ''A'', e_sourceNodeId = ''t1'',
     e_targetNodeId = ''s2''\<rparr>"

text \<open>An edge whose target is not a stored node.\<close>

definition edge_dangling :: automationEdge where
  "edge_dangling = \<lparr>e_id = ''e2'', e_automationId = ''A'', e_sourceNodeId = ''t1'',
     e_targetNodeId = ''zz''\<rparr>"

definition exec_A :: automationExecution where
  "exec_A = \<lparr>x_id = ''x1'', x_automationId = ''A'', x_status = ''completed'',
     x_currentNodeId = Some ''t1'', x_executionPath = [''t1''], x_result = None,
     x_error = None\<rparr>"

definition log_A :: automationExecutionLog where
  "log_A = \<lparr>l_id = ''l1'', l_executionId = ''x1'', l_nodeId = ''t1'', l_nodeType = ''trigger'',
     l_status = ''started'', l_error = None\<rparr>"

definition two_db :: db where
  "two_db = snd (insert_node node_B (snd (insert_node node_A
              (snd (insert_automation auto_B (snd (insert_automation auto_A empty_db)))))))"

definition full_db :: db where
  "full_db = snd (insert_log log_A (snd (insert_execution exec_A
               (snd (insert_edge edge_cross two_db)))))"





section \<open>Channels and contacts: storage and controllers\<close>

text \<open>
  The controllers call the module \<open>storage\<close>, which is not among the sources. Its
  operations are taken as the row operations on the tables \<open>channels\<close> and \<open>contacts\<close>
  that the schema declares: a read selects rows, \<open>updateChannel\<close> sets the columns
  present in its argument on the row with the given id, and a create inserts one row
  under the declared constraints, with the column defaults for what is omitted. The key
  a create generates (\<open>gen_random_uuid()\<close>) is passed in as \<open>gen\<close>.
\<close>

record channel =
  c_id :: string
  c_name :: string
  c_phoneNumberId :: string
  c_accessToken :: string
  c_isActive :: "bool option"
  c_healthStatus :: "string option"
  c_lastHealthCheck :: "nat option"
  c_healthDetails :: "string option"

record contact =
  k_id :: string
  k_channelId :: "string option"
  k_name :: string
  k_phone :: string
  k_email :: "string option"

record storage =
  channels :: "channel list"
  contacts :: "contact list"

datatype error = AppError nat string | ZodError string | DatabaseError db_error

subsection \<open>Request bodies and their validation\<close>

text \<open>
  A JSON body is a record of optional fields: \<open>None\<close> is an absent field. For a
  nullable column a present field is again an option, \<open>Some None\<close> being \<open>null\<close>. A
  field that is present has the type of its column. \<open>insertChannelSchema\<close> and
  \<open>insertContactSchema\<close> come from the tables by \<open>createInsertSchema\<close>: a column that
  is \<open>notNull\<close> and has no default is required, every other column is optional.
\<close>

record channel_body =
  b_name :: "string option"
  b_phoneNumberId :: "string option"
  b_accessToken :: "string option"
  b_isActive :: "bool option option"

record insertChannel =
  ic_name :: string
  ic_phoneNumberId :: string
  ic_accessToken :: string
  ic_isActive :: "bool option option"

definition insertChannelSchema_parse :: "channel_body \<Rightarrow> error + insertChannel" where
  "insertChannelSchema_parse b =
     (case (b_name b, b_phoneNumberId b, b_accessToken b) of
        (Some n, Some p, Some t) \<Rightarrow>
          Inr \<lparr>ic_name = n, ic_phoneNumberId = p, ic_accessToken = t, ic_isActive = b_isActive b\<rparr>
      | _ \<Rightarrow> Inl (ZodError ''Required''))"

text \<open>
  The body of an update is not validated: \<open>updateChannel\<close> tests
  \<open>req.body.isActive === true\<close> and hands the body to \<open>storage.updateChannel\<close> as it
  came. The field \<open>isActive\<close> is therefore kept as the JSON value that was sent; the
  other fields are the columns an update may set (the key is not among them), with the
  type of their column.
\<close>

datatype json_value = JNull | JBool bool | JNumber int | JString string | JOther

record channel_patch =
  p_name :: "string option"
  p_phoneNumberId :: "string option"
  p_accessToken :: "string option"
  p_isActive :: "json_value option"
  p_healthStatus :: "string option option"
  p_lastHealthCheck :: "nat option option"
  p_healthDetails :: "string option option"

text \<open>
  What the boolean column \<open>is_active\<close> stores for a JSON value: \<open>null\<close> is NULL, a
  boolean is itself, and a string or a number is read as the store reads a boolean
  literal (\<open>true\<close>, \<open>t\<close>, \<open>yes\<close>, \<open>y\<close>, \<open>on\<close>, \<open>1\<close> and \<open>false\<close>, \<open>f\<close>, \<open>no\<close>,
  \<open>n\<close>, \<open>off\<close>, \<open>0\<close>); anything else is rejected by the statement.
\<close>

definition to_boolean :: "json_value \<Rightarrow> db_error + bool option" where
  "to_boolean v =
     (case v of
        JNull \<Rightarrow> Inr None
      | JBool b \<Rightarrow> Inr (Some b)
      | JNumber n \<Rightarrow>
          (if n = 1 then Inr (Some True) else if n = 0 then Inr (Some False)
           else Inl (InvalidTextRepresentation ''boolean''))
      | JString x \<Rightarrow>
          (if x \<in> set [''true'', ''t'', ''yes'', ''y'', ''on'', ''1''] then Inr (Some True)
           else if x \<in> set [''false'', ''f'', ''no'', ''n'', ''off'', ''0''] then Inr (Some False)
           else Inl (InvalidTextRepresentation ''boolean''))
      | JOther \<Rightarrow> Inl (InvalidTextRepresentation ''boolean''))"

definition patch_error :: "channel_patch \<Rightarrow> db_error option" where
  "patch_error p =
     (case p_isActive p of
        None \<Rightarrow> None
      | Some v \<Rightarrow> (case to_boolean v of Inl e \<Rightarrow> Some e | Inr b \<Rightarrow> None))"

definition no_patch :: channel_patch where
  "no_patch = \<lparr>p_name = None, p_phoneNumberId = None, p_accessToken = None, p_isActive = None,
     p_healthStatus = None, p_lastHealthCheck = None, p_healthDetails = None\<rparr>"

record contact_body =
  cb_name :: "string option"
  cb_phone :: "string option"
  cb_email :: "string option"

record insertContact =
  ik_channelId :: "string option"
  ik_name :: string
  ik_phone :: string
  ik_email :: "string option"

text \<open>
  \<open>insertContactSchema.parse({...contact, channelId})\<close>; \<open>createContact\<close> parses the
  body alone and sets \<open>channelId\<close> afterwards, which gives the same row.
\<close>

definition insertContactSchema_parse :: "contact_body \<Rightarrow> string option \<Rightarrow> error + insertContact" where
  "insertContactSchema_parse b channelId =
     (case (cb_name b, cb_phone b) of
        (Some n, Some p) \<Rightarrow>
          Inr \<lparr>ik_channelId = channelId, ik_name = n, ik_phone = p, ik_email = cb_email b\<rparr>
      | _ \<Rightarrow> Inl (ZodError ''Required''))"

subsection \<open>Storage\<close>

definition storage_getChannels :: "storage \<Rightarrow> channel list" where
  "storage_getChannels s = channels s"

definition storage_getChannel :: "string \<Rightarrow> storage \<Rightarrow> channel option" where
  "storage_getChannel cid s = find (\<lambda>c. c_id c = cid) (channels s)"

text \<open>
  Which channel is returned when several are active is not fixed by the sources; the
  first in table order is taken.
\<close>

definition storage_getActiveChannel :: "storage \<Rightarrow> channel option" where
  "storage_getActiveChannel s = find (\<lambda>c. c_isActive c = Some True) (channels s)"

definition apply_patch :: "channel_patch \<Rightarrow> channel \<Rightarrow> channel" where
  "apply_patch p c =
     c\<lparr>c_name := (case p_name p of None \<Rightarrow> c_name c | Some v \<Rightarrow> v),
       c_phoneNumberId := (case p_phoneNumberId p of None \<Rightarrow> c_phoneNumberId c | Some v \<Rightarrow> v),
       c_accessToken := (case p_accessToken p of None \<Rightarrow> c_accessToken c | Some v \<Rightarrow> v),
       c_isActive := (case p_isActive p of
                        None \<Rightarrow> c_isActive c
                      | Some v \<Rightarrow> (case to_boolean v of Inl e \<Rightarrow> c_isActive c | Inr b \<Rightarrow> b)),
       c_healthStatus := (case p_healthStatus p of None \<Rightarrow> c_healthStatus c | Some v \<Rightarrow> v),
       c_lastHealthCheck :=
         (case p_lastHealthCheck p of None \<Rightarrow> c_lastHealthCheck c | Some v \<Rightarrow> v),
       c_healthDetails := (case p_healthDetails p of None \<Rightarrow> c_healthDetails c | Some v \<Rightarrow> v)\<rparr>"

text \<open>
  Returns the updated row, or nothing when no row has the id. A value the column
  cannot store fails the statement and nothing is written.
\<close>

definition storage_updateChannel ::
  "string \<Rightarrow> channel_patch \<Rightarrow> storage \<Rightarrow> (error + channel option) \<times> storage" where
  "storage_updateChannel cid p s =
     (case patch_error p of
        Some e \<Rightarrow> (Inl (DatabaseError e), s)
      | None \<Rightarrow>
          (case find (\<lambda>c. c_id c = cid) (channels s) of
             None \<Rightarrow> (Inr None, s)
           | Some c \<Rightarrow>
               (Inr (Some (apply_patch p c)),
                s\<lparr>channels := map (\<lambda>c. if c_id c = cid then apply_patch p c else c)
                                  (channels s)\<rparr>)))"

text \<open>\<open>is_active\<close> defaults to \<open>true\<close> and \<open>health_status\<close> to \<open>unknown\<close>.\<close>

definition storage_createChannel ::
  "insertChannel \<Rightarrow> string \<Rightarrow> storage \<Rightarrow> (error + channel) \<times> storage" where
  "storage_createChannel v gen s =
     (if gen \<in> set (map c_id (channels s))
      then (Inl (DatabaseError (UniqueViolation ''channels_pkey'')), s)
      else
        let row = \<lparr>c_id = gen, c_name = ic_name v, c_phoneNumberId = ic_phoneNumberId v,
                   c_accessToken = ic_accessToken v,
                   c_isActive = (case ic_isActive v of None \<Rightarrow> Some True | Some a \<Rightarrow> a),
                   c_healthStatus = Some ''unknown'', c_lastHealthCheck = None,
                   c_healthDetails = Some ''{}''\<rparr>
        in (Inr row, s\<lparr>channels := channels s @ [row]\<rparr>))"

definition storage_getContacts :: "storage \<Rightarrow> contact list" where
  "storage_getContacts s = contacts s"

definition storage_getContactsByChannel :: "string \<Rightarrow> storage \<Rightarrow> contact list" where
  "storage_getContactsByChannel cid s = filter (\<lambda>k. k_channelId k = Some cid) (contacts s)"

text \<open>
  \<open>contacts\<close>: primary key \<open>id\<close>; \<open>contacts_channel_phone_unique\<close> is unique on
  (\<open>channel_id\<close>, \<open>phone\<close>), where rows with a NULL \<open>channel_id\<close> never conflict;
  \<open>channel_id\<close> references \<open>channels.id\<close>.
\<close>

definition storage_createContact ::
  "insertContact \<Rightarrow> string \<Rightarrow> storage \<Rightarrow> (error + contact) \<times> storage" where
  "storage_createContact v gen s =
     (if gen \<in> set (map k_id (contacts s))
      then (Inl (DatabaseError (UniqueViolation ''contacts_pkey'')), s)
      else if ik_channelId v \<noteq> None \<and>
              (ik_channelId v, ik_phone v) \<in> set (map (\<lambda>k. (k_channelId k, k_phone k)) (contacts s))
      then (Inl (DatabaseError (UniqueViolation ''contacts_channel_phone_unique'')), s)
      else if (case ik_channelId v of None \<Rightarrow> False
               | Some cid \<Rightarrow> cid \<notin> set (map c_id (channels s)))
      then (Inl (DatabaseError (ForeignKeyViolation ''contacts_channel_id_fk'')), s)
      else
        let row = \<lparr>k_id = gen, k_channelId = ik_channelId v, k_name = ik_name v,
                   k_phone = ik_phone v, k_email = ik_email v\<rparr>
        in (Inr row, s\<lparr>contacts := contacts s @ [row]\<rparr>))"

subsection \<open>channels.controller\<close>

text \<open>A JavaScript string is truthy when it is present and not empty.\<close>

definition truthy :: "string option \<Rightarrow> bool" where
  "truthy v \<longleftrightarrow> (case v of None \<Rightarrow> False | Some x \<Rightarrow> x \<noteq> [])"

definition set_inactive :: channel_patch where
  "set_inactive = no_patch\<lparr>p_isActive := Some (JBool False)\<rparr>"

text \<open>
  The loop of \<open>createChannel\<close> over the channels read before it:
  \<open>if (channel.isActive) await storage.updateChannel(channel.id, { isActive: false })\<close>.
\<close>

fun createChannel_loop :: "channel list \<Rightarrow> storage \<Rightarrow> storage" where
  "createChannel_loop [] s = s"
| "createChannel_loop (channel # rest) s =
     createChannel_loop rest
       (if c_isActive channel = Some True
        then snd (storage_updateChannel (c_id channel) set_inactive s) else s)"

text \<open>
  The answer of the health request to the Graph API after a create: an OK response, a
  response that is not OK, or a failed request, which \<open>createChannel\<close> catches and logs.
\<close>

datatype health_response = HealthOk string | HealthError string | HealthThrows

text \<open>
  The health update after the create: \<open>healthy\<close> on an OK response, \<open>error\<close>
  otherwise, nothing when the request failed.
\<close>

definition health_update :: "health_response \<Rightarrow> nat \<Rightarrow> string \<Rightarrow> storage \<Rightarrow> storage" where
  "health_update response now cid s =
     (case response of
        HealthOk details \<Rightarrow>
          snd (storage_updateChannel cid
                 (no_patch\<lparr>p_healthStatus := Some (Some ''healthy''),
                    p_lastHealthCheck := Some (Some now),
                    p_healthDetails := Some (Some details)\<rparr>) s)
      | HealthError details \<Rightarrow>
          snd (storage_updateChannel cid
                 (no_patch\<lparr>p_healthStatus := Some (Some ''error''),
                    p_lastHealthCheck := Some (Some now),
                    p_healthDetails := Some (Some details)\<rparr>) s)
      | HealthThrows \<Rightarrow> s)"

definition createChannel ::
  "channel_body \<Rightarrow> string \<Rightarrow> health_response \<Rightarrow> nat \<Rightarrow> storage
     \<Rightarrow> (error + channel option) \<times> storage" where
  "createChannel body gen response now s =
     (case insertChannelSchema_parse body of
        Inl e \<Rightarrow> (Inl e, s)
      | Inr validatedChannel \<Rightarrow>
          (let s1 = (if ic_isActive validatedChannel = Some (Some True)
                     then createChannel_loop (storage_getChannels s) s else s)
           in (case storage_createChannel validatedChannel gen s1 of
                 (Inl e, s2) \<Rightarrow> (Inl e, s2)
               | (Inr channel, s2) \<Rightarrow>
                   (let s3 = health_update response now (c_id channel) s2
                    in (Inr (storage_getChannel (c_id channel) s3), s3)))))"

text \<open>
  The loop of \<open>updateChannel\<close>:
  \<open>if (channel.id !== id && channel.isActive) await storage.updateChannel(channel.id, { isActive: false })\<close>.
\<close>

fun updateChannel_loop :: "string \<Rightarrow> channel list \<Rightarrow> storage \<Rightarrow> storage" where
  "updateChannel_loop cid [] s = s"
| "updateChannel_loop cid (channel # rest) s =
     updateChannel_loop cid rest
       (if c_id channel \<noteq> cid \<and> c_isActive channel = Some True
        then snd (storage_updateChannel (c_id channel) set_inactive s) else s)"

definition updateChannel :: "string \<Rightarrow> channel_patch \<Rightarrow> storage \<Rightarrow> (error + channel) \<times> storage" where
  "updateChannel cid body s =
     (let s1 = (if p_isActive body = Some (JBool True)
                then updateChannel_loop cid (storage_getChannels s) s else s)
      in (case storage_updateChannel cid body s1 of
            (Inl e, s2) \<Rightarrow> (Inl e, s2)
          | (Inr None, s2) \<Rightarrow> (Inl (AppError 404 ''Channel not found''), s2)
          | (Inr (Some channel), s2) \<Rightarrow> (Inr channel, s2)))"

subsection \<open>contacts.controller\<close>

text \<open>
  \<open>channelId\<close> from the request, or else the id of the active channel, if there is one.
\<close>

definition resolve_channelId :: "string option \<Rightarrow> storage \<Rightarrow> string option" where
  "resolve_channelId requested s =
     (if truthy requested then requested
      else case storage_getActiveChannel s of
             None \<Rightarrow> requested
           | Some activeChannel \<Rightarrow> Some (c_id activeChannel))"

definition existingContacts :: "string option \<Rightarrow> storage \<Rightarrow> contact list" where
  "existingContacts channelId s =
     (if truthy channelId then storage_getContactsByChannel (the channelId) s
      else storage_getContacts s)"

definition createContact ::
  "contact_body \<Rightarrow> string option \<Rightarrow> string \<Rightarrow> storage \<Rightarrow> (error + contact) \<times> storage" where
  "createContact body queryChannelId gen s =
     (case insertContactSchema_parse body None of
        Inl e \<Rightarrow> (Inl e, s)
      | Inr validatedContact \<Rightarrow>
          (let channelId = resolve_channelId queryChannelId s in
           if list_ex (\<lambda>c. k_phone c = ik_phone validatedContact) (existingContacts channelId s)
           then (Inl (AppError 409 ''Contact with this phone number already exists''), s)
           else storage_createContact (validatedContact\<lparr>ik_channelId := channelId\<rparr>) gen s))"

text \<open>
  The body of an import: \<open>contacts\<close> is \<open>None\<close> when the field is not an array. Each
  item comes with the key the database generates for its row if it is inserted.
\<close>

record import_body =
  ib_contacts :: "(contact_body \<times> string) list option"
  ib_channelId :: "string option"

record import_state =
  store :: storage
  existingPhones :: "string set"
  createdContacts :: "contact list"
  duplicates :: "contact_body list"
  errors :: "(contact_body \<times> error) list"

text \<open>
  One round of the loop of \<open>importContacts\<close>. \<open>existingPhones.has(contact.phone)\<close> is
  false for an item without a phone. An exception of \<open>parse\<close> or of
  \<open>storage.createContact\<close> is caught and the item goes to \<open>errors\<close>.
\<close>

definition import_step :: "string option \<Rightarrow> contact_body \<times> string \<Rightarrow> import_state \<Rightarrow> import_state" where
  "import_step channelId item st =
     (let contact = fst item in
      if (case cb_phone contact of None \<Rightarrow> False | Some p \<Rightarrow> p \<in> existingPhones st)
      then st\<lparr>duplicates := duplicates st @ [contact]\<rparr>
      else (case insertContactSchema_parse contact channelId of
              Inl e \<Rightarrow> st\<lparr>errors := errors st @ [(contact, e)]\<rparr>
            | Inr validatedContact \<Rightarrow>
                (case storage_createContact validatedContact (snd item) (store st) of
                   (Inl e, s') \<Rightarrow> st\<lparr>errors := errors st @ [(contact, e)]\<rparr>
                 | (Inr created, s') \<Rightarrow>
                     st\<lparr>store := s', createdContacts := createdContacts st @ [created],
                        existingPhones := insert (k_phone created) (existingPhones st)\<rparr>)))"

fun import_loop :: "string option \<Rightarrow> (contact_body \<times> string) list \<Rightarrow> import_state \<Rightarrow> import_state" where
  "import_loop channelId [] st = st"
| "import_loop channelId (item # rest) st = import_loop channelId rest (import_step channelId item st)"

record import_response =
  r_created :: nat
  r_duplicates :: nat
  r_failed :: nat
  r_total :: nat
  r_details_duplicates :: "contact_body list"
  r_details_errors :: "(contact_body \<times> error) list"

text \<open>The state the loop starts from: the phones of the existing contacts, nothing else.\<close>

definition import_start :: "string option \<Rightarrow> storage \<Rightarrow> import_state" where
  "import_start channelId s =
     \<lparr>store = s, existingPhones = set (map k_phone (existingContacts channelId s)),
      createdContacts = [], duplicates = [], errors = []\<rparr>"

text \<open>\<open>bodyChannelId || req.query.channelId\<close>, then the active channel.\<close>

definition import_channelId :: "import_body \<Rightarrow> string option \<Rightarrow> storage \<Rightarrow> string option" where
  "import_channelId body queryChannelId s =
     resolve_channelId (if truthy (ib_channelId body) then ib_channelId body else queryChannelId) s"

definition importContacts ::
  "import_body \<Rightarrow> string option \<Rightarrow> storage \<Rightarrow> (error + import_response) \<times> storage" where
  "importContacts body queryChannelId s =
     (case ib_contacts body of
        None \<Rightarrow> (Inl (AppError 400 ''Contacts must be an array''), s)
      | Some items \<Rightarrow>
          let channelId = import_channelId body queryChannelId s;
              st = import_loop channelId items (import_start channelId s)
          in (Inr \<lparr>r_created = length (createdContacts st),
                    r_duplicates = length (duplicates st),
                    r_failed = length (errors st),
                    r_total = length items,
                    r_details_duplicates = take 10 (duplicates st),
                    r_details_errors = take 10 (errors st)\<rparr>,
              store st))"

subsection \<open>Properties of the channel table, and sample requests\<close>

text \<open>A channel with its \<open>isActive\<close> set to false if it was true.\<close>

definition deactivate :: "channel \<Rightarrow> channel" where
  "deactivate c = (if c_isActive c = Some True then c\<lparr>c_isActive := Some False\<rparr> else c)"

definition active_channels :: "storage \<Rightarrow> channel list" where
  "active_channels s = filter (\<lambda>c. c_isActive c = Some True) (channels s)"

text \<open>A channel with its \<open>isActive\<close> set to false if its id is in the given set.\<close>

definition off :: "string set \<Rightarrow> channel \<Rightarrow> channel" where
  "off ids r = (if c_id r \<in> ids then r\<lparr>c_isActive := Some False\<rparr> else r)"

definition channel_one :: channel where
  "channel_one = \<lparr>c_id = ''c1'', c_name = ''main'', c_phoneNumberId = ''100'',
     c_accessToken = ''tok1'', c_isActive = Some True, c_healthStatus = Some ''unknown'',
     c_lastHealthCheck = None, c_healthDetails = Some ''{}''\<rparr>"

definition channel_two :: channel where
  "channel_two = \<lparr>c_id = ''c2'', c_name = ''spare'', c_phoneNumberId = ''200'',
     c_accessToken = ''tok2'', c_isActive = Some False, c_healthStatus = Some ''unknown'',
     c_lastHealthCheck = None, c_healthDetails = Some ''{}''\<rparr>"

definition contact_one :: contact where
  "contact_one = \<lparr>k_id = ''k1'', k_channelId = Some ''c1'', k_name = ''Ann'', k_phone = ''111'',
     k_email = None\<rparr>"

definition shop :: storage where
  "shop = \<lparr>channels = [channel_one, channel_two], contacts = [contact_one]\<rparr>"

definition empty_storage :: storage where
  "empty_storage = \<lparr>channels = [], contacts = []\<rparr>"

definition new_channel_body :: channel_body where
  "new_channel_body = \<lparr>b_name = Some ''third'', b_phoneNumberId = Some ''300'',
     b_accessToken = Some ''tok3'', b_isActive = Some (Some True)\<rparr>"

text \<open>The channel this body creates under the key \<open>c3\<close>, and the table afterwards.\<close>

definition channel_three :: channel where
  "channel_three = \<lparr>c_id = ''c3'', c_name = ''third'', c_phoneNumberId = ''300'',
     c_accessToken = ''tok3'', c_isActive = Some True, c_healthStatus = Some ''unknown'',
     c_lastHealthCheck = None, c_healthDetails = Some ''{}''\<rparr>"

definition shop_created :: storage where
  "shop_created = \<lparr>channels = [channel_one\<lparr>c_isActive := Some False\<rparr>, channel_two,
     channel_three], contacts = [contact_one]\<rparr>"

text \<open>The table after channel \<open>c2\<close> is set active.\<close>

definition shop_updated :: storage where
  "shop_updated = \<lparr>channels = [channel_one\<lparr>c_isActive := Some False\<rparr>,
     channel_two\<lparr>c_isActive := Some True\<rparr>], contacts = [contact_one]\<rparr>"

definition activate :: channel_patch where
  "activate = no_patch\<lparr>p_isActive := Some (JBool True)\<rparr>"

text \<open>
  Two requests that make a channel active without saying \<open>isActive: true\<close>: a create
  whose body leaves \<open>isActive\<close> out, and an update whose body has the string
  \<open>"true"\<close>; and the channel tables after them.
\<close>

definition default_channel_body :: channel_body where
  "default_channel_body = \<lparr>b_name = Some ''third'', b_phoneNumberId = Some ''300'',
     b_accessToken = Some ''tok3'', b_isActive = None\<rparr>"

definition activate_as_text :: channel_patch where
  "activate_as_text = no_patch\<lparr>p_isActive := Some (JString ''true'')\<rparr>"

definition shop_two_after_create :: storage where
  "shop_two_after_create = \<lparr>channels = [channel_one, channel_two, channel_three],
     contacts = [contact_one]\<rparr>"

definition shop_two_after_update :: storage where
  "shop_two_after_update = \<lparr>channels = [channel_one, channel_two\<lparr>c_isActive := Some True\<rparr>],
     contacts = [contact_one]\<rparr>"

text \<open>A body with the phone of a stored contact, one with a new phone, one without a name.\<close>

definition body_ann :: contact_body where
  "body_ann = \<lparr>cb_name = Some ''Ann again'', cb_phone = Some ''111'', cb_email = None\<rparr>"

definition body_bob :: contact_body where
  "body_bob = \<lparr>cb_name = Some ''Bob'', cb_phone = Some ''222'', cb_email = None\<rparr>"

definition body_nameless :: contact_body where
  "body_nameless = \<lparr>cb_name = None, cb_phone = Some ''222'', cb_email = None\<rparr>"

text \<open>
  Two imports: the first item of \<open>import_retry\<close> has no name and fails validation, and
  the second has the same phone; \<open>import_three\<close> repeats a stored phone and a phone of
  its own.
\<close>

definition import_retry :: import_body where
  "import_retry = \<lparr>ib_contacts = Some [(body_nameless, ''g1''), (body_bob, ''g2'')],
     ib_channelId = None\<rparr>"

definition import_three :: import_body where
  "import_three = \<lparr>ib_contacts = Some [(body_ann, ''g1''), (body_bob, ''g2''), (body_bob, ''g3'')],
     ib_channelId = None\<rparr>"

definition contact_bob :: contact where
  "contact_bob = \<lparr>k_id = ''g2'', k_channelId = Some ''c1'', k_name = ''Bob'', k_phone = ''222'',
     k_email = None\<rparr>"

section \<open>The execution engine\<close>

text \<open>
  Modelled from the spec: the execution engine of sections 4.2 and 4.3 (the step
  algorithm, the resume of a deferred run and the node evaluators) is not among the
  sources, which hold only the tables \<open>automation_executions\<close> and
  \<open>automation_execution_logs\<close> that a run and its log entries are stored in. The rows
  are those of the schema above; one run is its execution row, its log entries in the
  order they were appended, and the resume time of a deferred run.
\<close>

datatype outcome = Advance "string list" | Defer nat | Fail string

record run =
  execution :: automationExecution
  logs :: "automationExecutionLog list"
  resumeAt :: "nat option"

text \<open>
  Modelled from the spec: \<open>evaluate(nodeConfig, executionContext) -> Outcome\<close>. The
  context is the run and the time of the evaluation. The evaluators are looked up in a
  registry keyed by kind and subtype; a kind without an evaluator is unknown. The graph
  is what \<open>getGraph\<close> returns for the automation of the run, and \<open>newId\<close> stands for the
  keys the store generates for log entries.
\<close>

type_synonym evaluator = "automationNode \<Rightarrow> run \<Rightarrow> nat \<Rightarrow> outcome"

record engine =
  g_nodes :: "automationNode list"
  g_edges :: "automationEdge list"
  evaluators :: "string \<Rightarrow> string option \<Rightarrow> evaluator option"
  newId :: "nat \<Rightarrow> string"

text \<open>
  Modelled from the spec: an execution is created when a trigger matches; its initial
  state is \<open>running\<close>, at the matched trigger node. The execution path is the sequence
  of node-identifiers visited, and a step appends only the successor it advances to, so
  the path starts with the trigger node: section 8 gives the path \<open>[T1, A1]\<close> for the
  run of \<open>T1 -> A1\<close>.
\<close>

definition create_execution :: "string \<Rightarrow> string \<Rightarrow> string \<Rightarrow> run" where
  "create_execution xid aid trigger =
     \<lparr>execution = \<lparr>x_id = xid, x_automationId = aid, x_status = ''running'',
                    x_currentNodeId = Some trigger, x_executionPath = [trigger],
                    x_result = None, x_error = None\<rparr>,
      logs = [], resumeAt = None\<rparr>"

text \<open>
  Modelled from the spec: the execution logger appends one immutable entry with the
  node-identifier, the node kind, the status and the error text.
\<close>

definition append_log :: "engine \<Rightarrow> automationNode \<Rightarrow> string \<Rightarrow> string option \<Rightarrow> run \<Rightarrow> run" where
  "append_log E node status err r =
     r\<lparr>logs := logs r @
         [\<lparr>l_id = newId E (length (logs r)), l_executionId = x_id (execution r),
           l_nodeId = n_nodeId node, l_nodeType = n_type node, l_status = status,
           l_error = err\<rparr>]\<rparr>"

text \<open>Modelled from the spec: step 6, persist \<open>failed\<close> status with the error text.\<close>

definition mark_failed :: "string \<Rightarrow> run \<Rightarrow> run" where
  "mark_failed err r = r\<lparr>execution := (execution r)\<lparr>x_status := ''failed'', x_error := Some err\<rparr>\<rparr>"

definition outgoing :: "engine \<Rightarrow> string \<Rightarrow> automationEdge list" where
  "outgoing E nid = filter (\<lambda>e. e_sourceNodeId e = nid) (g_edges E)"

text \<open>
  Modelled from the spec: steps 4 to 6, after the evaluator has run and its
  \<open>completed\<close> or \<open>failed\<close> entry is appended. On \<open>Advance\<close> a node without outgoing
  edges is terminal and the run is \<open>completed\<close>; otherwise the outcome must resolve to
  exactly one successor, which is appended to the path and becomes the current node.
  On \<open>Defer\<close> the run is \<open>waiting\<close> with the resume time. On \<open>Fail\<close> it is \<open>failed\<close>.
\<close>

definition apply_outcome :: "engine \<Rightarrow> automationNode \<Rightarrow> outcome \<Rightarrow> run \<Rightarrow> run" where
  "apply_outcome E node out r =
     (case out of
        Fail err \<Rightarrow> mark_failed err (append_log E node ''failed'' (Some err) r)
      | Defer t \<Rightarrow>
          (let r' = append_log E node ''completed'' None r
           in r'\<lparr>execution := (execution r')\<lparr>x_status := ''waiting''\<rparr>, resumeAt := Some t\<rparr>)
      | Advance nexts \<Rightarrow>
          (let r' = append_log E node ''completed'' None r
           in if outgoing E (n_nodeId node) = []
              then r'\<lparr>execution := (execution r')\<lparr>x_status := ''completed''\<rparr>\<rparr>
              else (case nexts of
                      [next] \<Rightarrow>
                        r'\<lparr>execution := (execution r')
                             \<lparr>x_currentNodeId := Some next,
                              x_executionPath := x_executionPath (execution r') @ [next]\<rparr>\<rparr>
                    | _ \<Rightarrow> mark_failed ''ConfigurationError: no single successor'' r')))"

text \<open>
  Modelled from the spec: the step algorithm of section 4.3, for one node. Step 1 loads
  the current node from the graph (\<open>NotFound\<close> marks the run failed); step 2 looks up
  the evaluator (an unknown kind is a configuration error); step 3 appends the
  \<open>started\<close> entry and runs the evaluator. Only a \<open>running\<close> execution is advanced:
  \<open>completed\<close> and \<open>failed\<close> have no transitions out, and \<open>waiting\<close> leaves only by a
  resume.
\<close>

definition engine_step :: "engine \<Rightarrow> nat \<Rightarrow> run \<Rightarrow> run" where
  "engine_step E now r =
     (if x_status (execution r) \<noteq> ''running'' then r
      else (case x_currentNodeId (execution r) of
              None \<Rightarrow> mark_failed ''NotFound: current node'' r
            | Some cur \<Rightarrow>
                (case find (\<lambda>n. n_nodeId n = cur) (g_nodes E) of
                   None \<Rightarrow> mark_failed ''NotFound: current node'' r
                 | Some node \<Rightarrow>
                     (case evaluators E (n_type node) (n_subtype node) of
                        None \<Rightarrow> mark_failed ''ConfigurationError: unknown node kind'' r
                      | Some evaluate \<Rightarrow>
                          (let r1 = append_log E node ''started'' None r
                           in apply_outcome E node (evaluate node r1 now) r1)))))"

text \<open>
  Modelled from the spec: after an \<open>Advance\<close> the engine continues with the new current
  node in the same turn. A graph with a cycle can keep it going, so the turn is bounded
  by \<open>fuel\<close>.
\<close>

fun engine_run :: "nat \<Rightarrow> engine \<Rightarrow> nat \<Rightarrow> run \<Rightarrow> run" where
  "engine_run 0 E now r = r"
| "engine_run (Suc fuel) E now r =
     (if x_status (execution r) = ''running''
      then engine_run fuel E now (engine_step E now r) else r)"

text \<open>
  Modelled from the spec: the resume of a \<open>waiting\<close> run whose resume time has passed
  sets it \<open>running\<close> again, at the same node, which the next step re-evaluates.
  Resuming before that time is a no-op.
\<close>

definition engine_resume :: "nat \<Rightarrow> run \<Rightarrow> run" where
  "engine_resume now r =
     (if x_status (execution r) = ''waiting'' \<and>
         (case resumeAt r of None \<Rightarrow> False | Some t \<Rightarrow> t \<le> now)
      then r\<lparr>execution := (execution r)\<lparr>x_status := ''running''\<rparr>\<rparr> else r)"

text \<open>The runs the engine produces: created, then advanced and resumed any number of times.\<close>

inductive engine_reachable :: "engine \<Rightarrow> run \<Rightarrow> bool" for E :: engine where
  created: "engine_reachable E (create_execution xid aid trigger)"
| stepped: "engine_reachable E r \<Longrightarrow> engine_reachable E (engine_step E now r)"
| resumed: "engine_reachable E r \<Longrightarrow> engine_reachable E (engine_resume now r)"

subsection \<open>A sample automation with a delay\<close>

text \<open>
  Modelled from the spec: sample evaluators after section 4.2. A trigger or an action
  advances to the targets of its outgoing edges; a delay defers by 60 when it is first
  evaluated and advances when it is re-evaluated after its resume time.
\<close>

definition targets :: "automationEdge list \<Rightarrow> string \<Rightarrow> string list" where
  "targets es nid = map e_targetNodeId (filter (\<lambda>e. e_sourceNodeId e = nid) es)"

definition sample_edges :: "automationEdge list" where
  "sample_edges =
     [\<lparr>e_id = ''e1'', e_automationId = ''A'', e_sourceNodeId = ''T1'', e_targetNodeId = ''D1''\<rparr>,
      \<lparr>e_id = ''e2'', e_automationId = ''A'', e_sourceNodeId = ''D1'', e_targetNodeId = ''A1''\<rparr>]"

definition sample_nodes :: "automationNode list" where
  "sample_nodes =
     [\<lparr>n_id = ''r1'', n_automationId = ''A'', n_nodeId = ''T1'', n_type = ''trigger'',
       n_subtype = None, n_connections = []\<rparr>,
      \<lparr>n_id = ''r2'', n_automationId = ''A'', n_nodeId = ''D1'', n_type = ''delay'',
       n_subtype = None, n_connections = []\<rparr>,
      \<lparr>n_id = ''r3'', n_automationId = ''A'', n_nodeId = ''A1'', n_type = ''action'',
       n_subtype = None, n_connections = []\<rparr>]"

definition advance_evaluator :: evaluator where
  "advance_evaluator node r now = Advance (targets sample_edges (n_nodeId node))"

definition delay_evaluator :: evaluator where
  "delay_evaluator node r now =
     (case resumeAt r of
        None \<Rightarrow> Defer (now + 60)
      | Some t \<Rightarrow> if t \<le> now then Advance (targets sample_edges (n_nodeId node)) else Defer t)"

definition sample_evaluators :: "string \<Rightarrow> string option \<Rightarrow> evaluator option" where
  "sample_evaluators kind subtype =
     (if kind = ''trigger'' \<or> kind = ''action'' then Some advance_evaluator
      else if kind = ''delay'' then Some delay_evaluator
      else None)"

definition sample_engine :: engine where
  "sample_engine = \<lparr>g_nodes = sample_nodes, g_edges = sample_edges,
     evaluators = sample_evaluators, newId = (\<lambda>n. replicate (Suc n) CHR ''l'')\<rparr>"

text \<open>
  The sample run: created at \<open>T1\<close>, advanced at time 0 until it waits at \<open>D1\<close>, resumed
  at time 100 and advanced to the end.
\<close>

definition sample_waiting :: run where
  "sample_waiting = engine_run 5 sample_engine 0 (create_execution ''x1'' ''A'' ''T1'')"

definition sample_done :: run where
  "sample_done = engine_run 5 sample_engine 100 (engine_resume 100 sample_waiting)"

text \<open>The run after the trigger step, running at the delay node \<open>D1\<close>.\<close>

definition sample_at_delay :: run where
  "sample_at_delay = engine_step sample_engine 0 (create_execution ''x1'' ''A'' ''T1'')"

definition node_D1 :: automationNode where
  "node_D1 = \<lparr>n_id = ''r2'', n_automationId = ''A'', n_nodeId = ''D1'', n_type = ''delay'',
     n_subtype = None, n_connections = []\<rparr>"

text \<open>The four status values of section 3.\<close>

definition status_ok :: "run \<Rightarrow> bool" where
  "status_ok r \<longleftrightarrow> x_status (execution r) \<in> {''running'', ''waiting'', ''completed'', ''failed''}"

section \<open>The constraints are invariants of the store\<close>

lemma db_ok_empty: "db_ok empty_db"
  by (simp add: db_ok_def pk_ok_def unique_ok_def fk_ok_def empty_db_def)

lemmas ok_defs = db_ok_def pk_ok_def unique_ok_def fk_ok_def list_all_iff

lemma image_rest: "y \<in> f ` A \<Longrightarrow> y \<notin> f ` {x \<in> A. P x} \<Longrightarrow> y \<in> f ` {x \<in> A. \<not> P x}"
  by blast

lemma insert_automation_ok: "db_ok d \<Longrightarrow> db_ok (snd (insert_automation a d))"
  by (auto simp: insert_automation_def ok_defs)

lemma insert_node_ok: "db_ok d \<Longrightarrow> db_ok (snd (insert_node n d))"
  by (auto simp: insert_node_def ok_defs)

lemma insert_edge_ok: "db_ok d \<Longrightarrow> db_ok (snd (insert_edge e d))"
  by (auto simp: insert_edge_def ok_defs)

lemma insert_execution_ok: "db_ok d \<Longrightarrow> db_ok (snd (insert_execution x d))"
  by (auto simp: insert_execution_def ok_defs)

lemma insert_log_ok: "db_ok d \<Longrightarrow> db_ok (snd (insert_log l d))"
  by (auto simp: insert_log_def ok_defs)

lemma delete_log_ok: "db_ok d \<Longrightarrow> db_ok (delete_log k d)"
  by (auto simp: delete_log_def ok_defs distinct_map_filter)

lemma delete_edge_ok: "db_ok d \<Longrightarrow> db_ok (delete_edge k d)"
  by (auto simp: delete_edge_def ok_defs distinct_map_filter)

lemma delete_execution_ok: "db_ok d \<Longrightarrow> db_ok (delete_execution k d)"
  by (auto simp: delete_execution_def ok_defs distinct_map_filter)

lemma delete_node_ok: "db_ok d \<Longrightarrow> db_ok (delete_node k d)"
  by (auto simp: delete_node_def ok_defs distinct_map_filter Let_def intro: image_rest)

lemma delete_automation_ok: "db_ok d \<Longrightarrow> db_ok (delete_automation k d)"
  by (auto simp: delete_automation_def ok_defs distinct_map_filter Let_def intro: image_rest)

lemma reachable_db_ok: "reachable d \<Longrightarrow> db_ok d"
proof (induction rule: reachable.induct)
  case init
  show ?case by (rule db_ok_empty)
qed (simp_all add: insert_automation_ok insert_node_ok insert_edge_ok insert_execution_ok
       insert_log_ok delete_automation_ok delete_node_ok delete_edge_ok delete_execution_ok
       delete_log_ok)

section \<open>Cascades, uniqueness and references\<close>

lemmas row_defs = auto_A_def auto_B_def node_A_def node_B_def node_dup_def edge_cross_def
  edge_dangling_def exec_A_def log_A_def

lemmas insert_defs = insert_automation_def insert_node_def insert_edge_def
  insert_execution_def insert_log_def

lemma two_db_eq:
  "two_db = \<lparr>automations = [auto_A, auto_B], automationNodes = [node_A, node_B],
     automationEdges = [], automationExecutions = [], automationExecutionLogs = []\<rparr>"
  by (simp add: two_db_def empty_db_def insert_defs row_defs)

lemma full_db_eq:
  "full_db = \<lparr>automations = [auto_A, auto_B], automationNodes = [node_A, node_B],
     automationEdges = [edge_cross], automationExecutions = [exec_A],
     automationExecutionLogs = [log_A]\<rparr>"
  by (simp add: full_db_def two_db_eq insert_defs row_defs)

lemma reachable_two_db: "reachable two_db"
  unfolding two_db_def by (intro reachable.intros)

lemma reachable_full_db: "reachable full_db"
  unfolding full_db_def by (intro reachable.intros reachable_two_db)

lemma delete_A_full_db:
  "delete_automation ''A'' full_db = \<lparr>automations = [auto_B], automationNodes = [node_B],
     automationEdges = [], automationExecutions = [], automationExecutionLogs = []\<rparr>"
  by (simp add: full_db_eq delete_automation_def Let_def row_defs)

text \<open>
  Claim C5. Deleting a stored Automation deletes all of its Nodes and all of its Edges:
  after the delete no node and no edge references that automation, and the automation
  itself is gone.
\<close>
theorem delete_automation_removes_nodes_and_edges:
  assumes "aid \<in> set (map a_id (automations d))"
  shows "nodes_of (delete_automation aid d) aid = [] \<and>
         edges_of (delete_automation aid d) aid = [] \<and>
         aid \<notin> set (map a_id (automations (delete_automation aid d)))"
  using assms by (auto simp: delete_automation_def nodes_of_def edges_of_def Let_def filter_empty_conv)

text \<open>Witness for C5: deleting automation \<open>A\<close> from \<open>full_db\<close>.\<close>

theorem delete_automation_removes_nodes_and_edges_witness:
  "''A'' \<in> set (map a_id (automations full_db)) \<and>
   nodes_of full_db ''A'' = [node_A] \<and> edges_of full_db ''A'' = [edge_cross] \<and>
   nodes_of (delete_automation ''A'' full_db) ''A'' = [] \<and>
   edges_of (delete_automation ''A'' full_db) ''A'' = []"
proof -
  have h: "''A'' \<in> set (map a_id (automations full_db))"
    by (simp add: full_db_eq row_defs)
  have b: "nodes_of full_db ''A'' = [node_A] \<and> edges_of full_db ''A'' = [edge_cross]"
    by (simp add: full_db_eq nodes_of_def edges_of_def row_defs)
  from h b delete_automation_removes_nodes_and_edges [OF h] show ?thesis by simp
qed

text \<open>
  Claim C1 says that deleting an Automation leaves the log entries of its Executions in
  the store. It does not: \<open>automation_executions.automation_id\<close> cascades, and
  \<open>automation_execution_logs.execution_id\<close> cascades from there. In \<open>full_db\<close> the
  execution \<open>x1\<close> of automation \<open>A\<close> has one log entry; after deleting \<open>A\<close> it has none.
\<close>
theorem delete_automation_keeps_logs_counterexample:
  "reachable full_db \<and> logs_of full_db ''x1'' = [log_A] \<and>
   logs_of (delete_automation ''A'' full_db) ''x1'' = []"
  by (simp add: reachable_full_db delete_A_full_db logs_of_def) (simp add: full_db_eq row_defs)

text \<open>
  Since execution ids are a primary key and every log entry references a stored
  execution, removing the log entries of the deleted executions keeps exactly the
  log entries of the executions that stay.
\<close>

lemma kept_logs:
  assumes "db_ok d"
  shows "filter (\<lambda>l. l_executionId l \<notin> set (map x_id (filter P (automationExecutions d))))
           (automationExecutionLogs d)
       = filter (\<lambda>l. l_executionId l \<in> set (map x_id (filter (\<lambda>x. \<not> P x) (automationExecutions d))))
           (automationExecutionLogs d)"
proof (rule filter_cong [OF refl])
  fix l assume l: "l \<in> set (automationExecutionLogs d)"
  from assms have inj: "inj_on x_id (set (automationExecutions d))"
    by (simp add: ok_defs distinct_map)
  from assms l have "l_executionId l \<in> x_id ` set (automationExecutions d)"
    by (auto simp: ok_defs)
  with inj show "(l_executionId l \<notin> set (map x_id (filter P (automationExecutions d))))
      = (l_executionId l \<in> set (map x_id (filter (\<lambda>x. \<not> P x) (automationExecutions d))))"
    by (auto simp: inj_on_eq_iff)
qed

text \<open>
  Claim C1 as amended. Deleting a stored Automation removes its Nodes, its Edges and
  also its Executions, and with them their log entries; the log entries that stay are
  exactly those whose owning Execution stays, in their order. The same holds for
  deleting an Execution: a log entry is deleted exactly when its owning Execution is.
\<close>

theorem delete_automation_cascades_to_logs:
  assumes "reachable d" and "aid \<in> set (map a_id (automations d))"
  shows "nodes_of (delete_automation aid d) aid = [] \<and>
         edges_of (delete_automation aid d) aid = [] \<and>
         executions_of (delete_automation aid d) aid = [] \<and>
         automationExecutions (delete_automation aid d)
           = filter (\<lambda>x. x_automationId x \<noteq> aid) (automationExecutions d) \<and>
         automationExecutionLogs (delete_automation aid d)
           = filter (\<lambda>l. l_executionId l
                          \<in> set (map x_id (automationExecutions (delete_automation aid d))))
               (automationExecutionLogs d) \<and>
         automationExecutionLogs (delete_execution xid d)
           = filter (\<lambda>l. l_executionId l
                          \<in> set (map x_id (automationExecutions (delete_execution xid d))))
               (automationExecutionLogs d)"
proof -
  have ok: "db_ok d" using assms(1) by (rule reachable_db_ok)
  have 1: "nodes_of (delete_automation aid d) aid = [] \<and>
           edges_of (delete_automation aid d) aid = [] \<and>
           executions_of (delete_automation aid d) aid = []"
    using assms(2)
    by (auto simp: delete_automation_def nodes_of_def edges_of_def executions_of_def Let_def
          filter_empty_conv)
  have 2: "automationExecutions (delete_automation aid d)
           = filter (\<lambda>x. x_automationId x \<noteq> aid) (automationExecutions d)"
    using assms(2) by (simp add: delete_automation_def Let_def)
  have 3: "automationExecutionLogs (delete_automation aid d)
           = filter (\<lambda>l. l_executionId l
                          \<in> set (map x_id (automationExecutions (delete_automation aid d))))
               (automationExecutionLogs d)"
    unfolding 2 using assms(2) kept_logs [OF ok, of "\<lambda>x. x_automationId x = aid"]
    by (simp add: delete_automation_def Let_def)
  have 4: "automationExecutionLogs (delete_execution xid d)
           = filter (\<lambda>l. l_executionId l
                          \<in> set (map x_id (automationExecutions (delete_execution xid d))))
               (automationExecutionLogs d)"
  proof -
    have "filter (\<lambda>l. l_executionId l \<noteq> xid) (automationExecutionLogs d)
        = filter (\<lambda>l. l_executionId l \<notin> set (map x_id (filter (\<lambda>x. x_id x = xid) (automationExecutions d))))
            (automationExecutionLogs d)"
      using ok by (intro filter_cong [OF refl]) (auto simp: ok_defs)
    then show ?thesis
      using kept_logs [OF ok, of "\<lambda>x. x_id x = xid"] by (simp add: delete_execution_def)
  qed
  from 1 2 3 4 show ?thesis by simp
qed

text \<open>Witness for the amended C1, in \<open>full_db\<close>.\<close>

theorem delete_automation_cascades_to_logs_witness:
  "reachable full_db \<and> ''A'' \<in> set (map a_id (automations full_db)) \<and>
   automationExecutionLogs full_db = [log_A] \<and>
   executions_of (delete_automation ''A'' full_db) ''A'' = [] \<and>
   automationExecutionLogs (delete_automation ''A'' full_db) = [] \<and>
   automationExecutionLogs (delete_execution ''zz'' full_db) = [log_A]"
proof -
  have h: "''A'' \<in> set (map a_id (automations full_db))"
    by (simp add: full_db_eq row_defs)
  have e: "automationExecutions (delete_automation ''A'' full_db) = []"
    by (simp add: delete_A_full_db)
  have f: "automationExecutions (delete_execution ''zz'' full_db) = [exec_A] \<and>
           automationExecutionLogs full_db = [log_A]"
    by (simp add: delete_execution_def full_db_eq row_defs)
  have g: "l_executionId log_A = x_id exec_A" by (simp add: row_defs)
  from delete_automation_cascades_to_logs [OF reachable_full_db h, of "''zz''"] e f g
  show ?thesis using reachable_full_db h by simp
qed

text \<open>
  Claim C6. In every store the row statements can produce, the Nodes of one Automation
  have pairwise different node-identifiers, and inserting a node whose node-identifier
  is already used by a node of the same automation is rejected and leaves the store,
  hence the stored node set, unchanged.
\<close>
theorem node_ids_unique_per_automation:
  assumes "reachable d"
  shows "distinct (map n_nodeId (nodes_of d aid)) \<and>
         (n_nodeId n \<in> set (map n_nodeId (nodes_of d (n_automationId n)))
            \<longrightarrow> fst (insert_node n d) \<noteq> None \<and> snd (insert_node n d) = d)"
proof -
  have "db_ok d" using assms by (rule reachable_db_ok)
  then have "distinct (map n_nodeId (automationNodes d))" by (simp add: ok_defs)
  then have 1: "distinct (map n_nodeId (nodes_of d aid))"
    by (simp add: nodes_of_def distinct_map_filter)
  have 2: "n_nodeId n \<in> set (map n_nodeId (nodes_of d (n_automationId n)))
            \<longrightarrow> fst (insert_node n d) \<noteq> None \<and> snd (insert_node n d) = d"
    by (auto simp: insert_node_def nodes_of_def)
  from 1 2 show ?thesis by simp
qed

text \<open>Witness for C6: a second row for node-identifier \<open>t1\<close> of automation \<open>A\<close>.\<close>

theorem node_ids_unique_per_automation_witness:
  "reachable two_db \<and> distinct (map n_nodeId (nodes_of two_db ''A'')) \<and>
   n_nodeId node_dup \<in> set (map n_nodeId (nodes_of two_db (n_automationId node_dup))) \<and>
   fst (insert_node node_dup two_db) \<noteq> None \<and> snd (insert_node node_dup two_db) = two_db"
proof -
  have h: "n_nodeId node_dup \<in> set (map n_nodeId (nodes_of two_db (n_automationId node_dup)))"
    by (simp add: two_db_eq nodes_of_def row_defs)
  from node_ids_unique_per_automation [OF reachable_two_db, of "''A''" node_dup] h
  show ?thesis using reachable_two_db by simp
qed

text \<open>
  Claim C3 says that both endpoints of a stored Edge are nodes of the Edge's own
  Automation. The foreign keys of \<open>source_node_id\<close> and \<open>target_node_id\<close> reference
  \<open>automation_nodes.node_id\<close> alone, so an edge of automation \<open>A\<close> whose target is a
  node of automation \<open>B\<close> is accepted.
\<close>
theorem edge_endpoints_same_automation_counterexample:
  "reachable two_db \<and> fst (insert_edge edge_cross two_db) = None \<and>
   automationEdges (snd (insert_edge edge_cross two_db)) = [edge_cross] \<and>
   \<not> endpoints_in_automation (snd (insert_edge edge_cross two_db)) edge_cross"
  by (simp add: reachable_two_db)
     (simp add: two_db_eq insert_edge_def endpoints_in_automation_def nodes_of_def row_defs)

text \<open>
  Claim C3 as amended. For every stored Edge, its automation is a stored automation and
  its source and target node-identifiers are node-identifiers of stored nodes (of some
  automation); inserting an edge for which one of the three is not stored is rejected
  and leaves the store, hence the stored edge set, unchanged.
\<close>

theorem edge_endpoints_stored:
  assumes "reachable d"
  shows "(\<forall>e \<in> set (automationEdges d). endpoints_stored d e) \<and>
         (\<not> endpoints_stored d f \<longrightarrow> fst (insert_edge f d) \<noteq> None \<and> snd (insert_edge f d) = d)"
proof -
  have "db_ok d" using assms by (rule reachable_db_ok)
  then have 1: "\<forall>e \<in> set (automationEdges d). endpoints_stored d e"
    by (simp add: ok_defs endpoints_stored_def)
  have 2: "\<not> endpoints_stored d f \<longrightarrow> fst (insert_edge f d) \<noteq> None \<and> snd (insert_edge f d) = d"
    by (auto simp: insert_edge_def endpoints_stored_def)
  from 1 2 show ?thesis by simp
qed

text \<open>Witness for the amended C3: an edge whose target is not stored.\<close>

theorem edge_endpoints_stored_witness:
  "reachable full_db \<and> automationEdges full_db = [edge_cross] \<and>
   endpoints_stored full_db edge_cross \<and> \<not> endpoints_stored full_db edge_dangling \<and>
   fst (insert_edge edge_dangling full_db) \<noteq> None \<and>
   snd (insert_edge edge_dangling full_db) = full_db"
proof -
  have e: "automationEdges full_db = [edge_cross]" by (simp add: full_db_eq)
  have h: "\<not> endpoints_stored full_db edge_dangling"
    by (simp add: full_db_eq endpoints_stored_def row_defs)
  from edge_endpoints_stored [OF reachable_full_db, of edge_dangling] e h
  show ?thesis using reachable_full_db by simp
qed

text \<open>
  Claim C7 says that every stored Automation has a node of type \<open>trigger\<close>. A node row
  references its automation, so the automation is stored first, and at that moment it
  has no node at all.
\<close>
theorem automation_has_trigger_node_counterexample:
  "reachable (snd (insert_automation auto_A empty_db)) \<and>
   automations (snd (insert_automation auto_A empty_db)) = [auto_A] \<and>
   \<not> has_trigger_node (snd (insert_automation auto_A empty_db)) (a_id auto_A)"
  by (simp add: reachable.intros)
     (simp add: insert_automation_def empty_db_def has_trigger_node_def nodes_of_def)

text \<open>
  Claim C7 as amended. Every stored Node belongs to a stored Automation, and an
  Automation need not have a trigger node: inserting an automation under a fresh id
  succeeds, and the stored automation then has no nodes, so no node of type \<open>trigger\<close>.
\<close>

theorem new_automation_has_no_nodes:
  assumes "reachable d"
  shows "(\<forall>n \<in> set (automationNodes d). n_automationId n \<in> set (map a_id (automations d))) \<and>
         (a_id a \<notin> set (map a_id (automations d)) \<longrightarrow>
            fst (insert_automation a d) = None \<and>
            a \<in> set (automations (snd (insert_automation a d))) \<and>
            nodes_of (snd (insert_automation a d)) (a_id a) = [] \<and>
            \<not> has_trigger_node (snd (insert_automation a d)) (a_id a))"
proof -
  have "db_ok d" using assms by (rule reachable_db_ok)
  then have 1: "\<forall>n \<in> set (automationNodes d). n_automationId n \<in> set (map a_id (automations d))"
    by (simp add: ok_defs)
  have 2: "fst (insert_automation a d) = None \<and>
            a \<in> set (automations (snd (insert_automation a d))) \<and>
            nodes_of (snd (insert_automation a d)) (a_id a) = [] \<and>
            \<not> has_trigger_node (snd (insert_automation a d)) (a_id a)"
    if fresh: "a_id a \<notin> set (map a_id (automations d))"
  proof -
    have "\<forall>n \<in> set (automationNodes d). n_automationId n \<noteq> a_id a"
      using 1 fresh by metis
    then have "filter (\<lambda>n. n_automationId n = a_id a) (automationNodes d) = []"
      by (simp add: filter_empty_conv)
    then show ?thesis
      using fresh by (simp add: insert_automation_def nodes_of_def has_trigger_node_def)
  qed
  from 1 2 show ?thesis by simp
qed

text \<open>Witness for the amended C7: the first automation of an empty store.\<close>

theorem new_automation_has_no_nodes_witness:
  "reachable empty_db \<and> a_id auto_A \<notin> set (map a_id (automations empty_db)) \<and>
   fst (insert_automation auto_A empty_db) = None \<and>
   nodes_of (snd (insert_automation auto_A empty_db)) (a_id auto_A) = [] \<and>
   \<not> has_trigger_node (snd (insert_automation auto_A empty_db)) (a_id auto_A)"
proof -
  have h: "a_id auto_A \<notin> set (map a_id (automations empty_db))" by (simp add: empty_db_def)
  from new_automation_has_no_nodes [OF reachable.init, of auto_A] h
  show ?thesis using reachable.init by simp
qed




section \<open>One active channel\<close>

text \<open>\<open>{ isActive: false }\<close> changes that column only; an update keeps the key.\<close>

lemma apply_set_inactive: "apply_patch set_inactive c = c\<lparr>c_isActive := Some False\<rparr>"
  by (simp add: apply_patch_def set_inactive_def no_patch_def to_boolean_def)

lemma patch_error_set_inactive: "patch_error set_inactive = None"
  by (simp add: patch_error_def set_inactive_def no_patch_def to_boolean_def)

lemma patch_error_absent: "p_isActive p = None \<Longrightarrow> patch_error p = None"
  by (simp add: patch_error_def)

lemma patch_error_true: "p_isActive p = Some (JBool True) \<Longrightarrow> patch_error p = None"
  by (simp add: patch_error_def to_boolean_def)

lemma c_id_apply_patch [simp]: "c_id (apply_patch p c) = c_id c"
  by (simp add: apply_patch_def)

lemma find_id_None: "find (\<lambda>c. c_id c = cid) xs = None \<longleftrightarrow> cid \<notin> set (map c_id xs)"
  by (auto simp: find_None_iff)

lemma snd_storage_updateChannel:
  assumes ok: "patch_error p = None"
  shows "snd (storage_updateChannel cid p s)
     = s\<lparr>channels := map (\<lambda>c. if c_id c = cid then apply_patch p c else c) (channels s)\<rparr>"
proof (cases "find (\<lambda>c. c_id c = cid) (channels s)")
  case None
  then have "\<forall>c \<in> set (channels s). c_id c \<noteq> cid" by (auto simp: find_None_iff)
  then have "map (\<lambda>c. if c_id c = cid then apply_patch p c else c) (channels s) = channels s"
    by (simp add: map_idI)
  with None ok show ?thesis by (simp add: storage_updateChannel_def)
next
  case (Some c)
  with ok show ?thesis by (simp add: storage_updateChannel_def)
qed

lemma off_off: "off A (off B r) = off (A \<union> B) r"
  by (auto simp: off_def)

lemma off_empty: "off {} r = r"
  by (simp add: off_def)

lemma update_set_inactive:
  "snd (storage_updateChannel cid set_inactive s) = s\<lparr>channels := map (off {cid}) (channels s)\<rparr>"
  by (simp add: snd_storage_updateChannel [OF patch_error_set_inactive] apply_set_inactive off_def)

lemma createChannel_loop_channels:
  "createChannel_loop cs s
     = s\<lparr>channels := map (off (set (map c_id (filter (\<lambda>c. c_isActive c = Some True) cs))))
                         (channels s)\<rparr>"
proof (induction cs arbitrary: s)
  case Nil
  show ?case by (simp add: off_empty)
next
  case (Cons c cs)
  show ?case
    by (simp add: Cons.IH update_set_inactive o_def off_off)
qed

lemma updateChannel_loop_channels:
  "updateChannel_loop cid cs s
     = s\<lparr>channels := map (off (set (map c_id (filter (\<lambda>c. c_id c \<noteq> cid \<and> c_isActive c = Some True) cs))))
                         (channels s)\<rparr>"
proof (induction cs arbitrary: s)
  case Nil
  show ?case by (simp add: off_empty)
next
  case (Cons c cs)
  show ?case
    by (simp add: Cons.IH update_set_inactive o_def off_off)
qed

lemma createChannel_loop_all:
  assumes "distinct (map c_id (channels s))"
  shows "createChannel_loop (storage_getChannels s) s = s\<lparr>channels := map deactivate (channels s)\<rparr>"
proof -
  from assms have inj: "inj_on c_id (set (channels s))" by (simp add: distinct_map)
  have "map (off (set (map c_id (filter (\<lambda>c. c_isActive c = Some True) (channels s))))) (channels s)
        = map deactivate (channels s)"
    using inj by (intro map_cong refl) (auto simp: deactivate_def off_def inj_on_eq_iff)
  then show ?thesis by (simp add: createChannel_loop_channels storage_getChannels_def)
qed

lemma updateChannel_loop_all:
  assumes "distinct (map c_id (channels s))"
  shows "updateChannel_loop cid (storage_getChannels s) s
           = s\<lparr>channels := map (\<lambda>c. if c_id c = cid then c else deactivate c) (channels s)\<rparr>"
proof -
  from assms have inj: "inj_on c_id (set (channels s))" by (simp add: distinct_map)
  have "map (off (set (map c_id (filter (\<lambda>c. c_id c \<noteq> cid \<and> c_isActive c = Some True) (channels s)))))
          (channels s)
        = map (\<lambda>c. if c_id c = cid then c else deactivate c) (channels s)"
    using inj by (intro map_cong refl) (auto simp: deactivate_def off_def inj_on_eq_iff)
  then show ?thesis by (simp add: updateChannel_loop_channels storage_getChannels_def)
qed

lemma deactivate_props [simp]:
  "c_id (deactivate c) = c_id c" "c_isActive (deactivate c) \<noteq> Some True"
  by (simp_all add: deactivate_def)

lemma filter_active_deactivate:
  "filter (\<lambda>c. c_isActive c = Some True) (map deactivate xs) = []"
  by (simp add: filter_empty_conv)

lemma find_snoc:
  "find P (xs @ [y]) = (case find P xs of None \<Rightarrow> (if P y then Some y else None) | Some x \<Rightarrow> Some x)"
  by (induction xs) simp_all

lemma find_fresh_snoc:
  assumes "\<forall>x \<in> set xs. \<not> P x" and "P y"
  shows "find P (xs @ [y]) = Some y"
proof -
  from assms(1) have "find P xs = None" by (simp add: find_None_iff)
  with assms(2) show ?thesis by (simp add: find_snoc)
qed

lemma map_fresh_snoc:
  assumes "\<forall>x \<in> set xs. c_id x \<noteq> cid" and "c_id y = cid"
  shows "map (\<lambda>c. if c_id c = cid then f c else c) (xs @ [y]) = xs @ [f y]"
  using assms by (simp add: map_idI)

lemma health_patch_row:
  assumes "channels s = xs @ [y]" and "\<forall>x \<in> set xs. c_id x \<noteq> cid" and "c_id y = cid"
    and "patch_error p = None"
  shows "snd (storage_updateChannel cid p s) = s\<lparr>channels := xs @ [apply_patch p y]\<rparr>"
  using assms(1-3) by (simp add: snd_storage_updateChannel [OF assms(4)] map_idI)

lemma health_update_snoc:
  assumes "channels s = xs @ [y]" and "\<forall>x \<in> set xs. c_id x \<noteq> cid" and "c_id y = cid"
  shows "\<exists>y'. health_update response now cid s = s\<lparr>channels := xs @ [y']\<rparr> \<and>
              c_id y' = cid \<and> c_isActive y' = c_isActive y"
proof (cases response)
  case (HealthOk details)
  let ?p = "no_patch\<lparr>p_healthStatus := Some (Some ''healthy''),
              p_lastHealthCheck := Some (Some now), p_healthDetails := Some (Some details)\<rparr>"
  have "health_update response now cid s = s\<lparr>channels := xs @ [apply_patch ?p y]\<rparr>"
    using HealthOk health_patch_row [OF assms, of ?p]
    by (simp add: health_update_def patch_error_absent no_patch_def)
  moreover have "c_id (apply_patch ?p y) = cid \<and> c_isActive (apply_patch ?p y) = c_isActive y"
    using assms(3) by (simp add: apply_patch_def no_patch_def)
  ultimately show ?thesis by blast
next
  case (HealthError details)
  let ?p = "no_patch\<lparr>p_healthStatus := Some (Some ''error''),
              p_lastHealthCheck := Some (Some now), p_healthDetails := Some (Some details)\<rparr>"
  have "health_update response now cid s = s\<lparr>channels := xs @ [apply_patch ?p y]\<rparr>"
    using HealthError health_patch_row [OF assms, of ?p]
    by (simp add: health_update_def patch_error_absent no_patch_def)
  moreover have "c_id (apply_patch ?p y) = cid \<and> c_isActive (apply_patch ?p y) = c_isActive y"
    using assms(3) by (simp add: apply_patch_def no_patch_def)
  ultimately show ?thesis by blast
next
  case HealthThrows
  have "s\<lparr>channels := xs @ [y]\<rparr> = s" using assms(1) by simp
  then have "health_update response now cid s = s\<lparr>channels := xs @ [y]\<rparr>"
    using HealthThrows by (simp add: health_update_def)
  with assms(3) show ?thesis by blast
qed

lemma createChannel_active:
  assumes d: "distinct (map c_id (channels s))"
    and act: "b_isActive body = Some (Some True)"
    and res: "createChannel body gen response now s = (Inr r, s')"
  shows "\<exists>ch. r = Some ch \<and> c_id ch = gen \<and> c_isActive ch = Some True \<and>
              s' = s\<lparr>channels := map deactivate (channels s) @ [ch]\<rparr>"
proof (cases "insertChannelSchema_parse body")
  case (Inl e)
  with res show ?thesis by (simp add: createChannel_def)
next
  case (Inr v)
  then have v: "ic_isActive v = Some (Some True)"
    using act by (auto simp: insertChannelSchema_parse_def split: option.splits)
  let ?s1 = "s\<lparr>channels := map deactivate (channels s)\<rparr>"
  have s1: "createChannel_loop (storage_getChannels s) s = ?s1"
    using d by (rule createChannel_loop_all)
  show ?thesis
  proof (cases "gen \<in> set (map c_id (channels s))")
    case True
    with res Inr v s1 show ?thesis
      by (simp add: createChannel_def storage_createChannel_def image_image)
  next
    case False
    define row where "row = \<lparr>c_id = gen, c_name = ic_name v, c_phoneNumberId = ic_phoneNumberId v,
                   c_accessToken = ic_accessToken v, c_isActive = Some True,
                   c_healthStatus = Some ''unknown'', c_lastHealthCheck = None,
                   c_healthDetails = Some ''{}''\<rparr>"
    let ?s2 = "s\<lparr>channels := map deactivate (channels s) @ [row]\<rparr>"
    have cr: "storage_createChannel v gen ?s1 = (Inr row, ?s2)"
      using False v by (simp add: storage_createChannel_def image_image row_def Let_def)
    have fresh: "\<forall>x \<in> set (map deactivate (channels s)). c_id x \<noteq> gen"
      using False by auto
    have rid: "c_id row = gen" by (simp add: row_def)
    have c2: "channels ?s2 = map deactivate (channels s) @ [row]" by simp
    from health_update_snoc [OF c2 fresh rid, of response now]
    obtain y' where h: "health_update response now gen ?s2
                        = s\<lparr>channels := map deactivate (channels s) @ [y']\<rparr>"
      and y': "c_id y' = gen" "c_isActive y' = c_isActive row" by auto
    have g: "storage_getChannel gen (s\<lparr>channels := map deactivate (channels s) @ [y']\<rparr>) = Some y'"
      using fresh y' by (simp add: storage_getChannel_def find_fresh_snoc)
    from res Inr v s1 cr h g rid
    have "r = Some y' \<and> s' = s\<lparr>channels := map deactivate (channels s) @ [y']\<rparr>"
      by (simp add: createChannel_def)
    with y' show ?thesis by (simp add: row_def)
  qed
qed

lemma find_keep_target:
  "find (\<lambda>c. c_id c = cid) (map (\<lambda>c. if c_id c = cid then c else deactivate c) xs)
     = find (\<lambda>c. c_id c = cid) xs"
  by (induction xs) simp_all

lemma updateChannel_active:
  assumes d: "distinct (map c_id (channels s))"
    and act: "p_isActive body = Some (JBool True)"
  shows "channels (snd (updateChannel cid body s))
           = map (\<lambda>c. if c_id c = cid then apply_patch body c else deactivate c) (channels s) \<and>
         contacts (snd (updateChannel cid body s)) = contacts s \<and>
         fst (updateChannel cid body s)
           = (case find (\<lambda>c. c_id c = cid) (channels s) of
                None \<Rightarrow> Inl (AppError 404 ''Channel not found'')
              | Some c \<Rightarrow> Inr (apply_patch body c))"
proof -
  let ?s1 = "s\<lparr>channels := map (\<lambda>c. if c_id c = cid then c else deactivate c) (channels s)\<rparr>"
  have s1: "updateChannel_loop cid (storage_getChannels s) s = ?s1"
    using d by (rule updateChannel_loop_all)
  have pe: "patch_error body = None" using act by (rule patch_error_true)
  have m: "map (\<lambda>c. if c_id c = cid then apply_patch body c else c)
             (map (\<lambda>c. if c_id c = cid then c else deactivate c) (channels s))
           = map (\<lambda>c. if c_id c = cid then apply_patch body c else deactivate c) (channels s)"
    by (simp add: o_def)
  have u: "updateChannel cid body s
           = (case storage_updateChannel cid body ?s1 of
                (Inl e, s2) \<Rightarrow> (Inl e, s2)
              | (Inr None, s2) \<Rightarrow> (Inl (AppError 404 ''Channel not found''), s2)
              | (Inr (Some channel), s2) \<Rightarrow> (Inr channel, s2))"
    using act s1 by (simp add: updateChannel_def)
  show ?thesis
  proof (cases "find (\<lambda>c. c_id c = cid) (channels s)")
    case None
    then have "\<forall>c \<in> set (channels s). c_id c \<noteq> cid" by (auto simp: find_None_iff)
    then have "map (\<lambda>c. if c_id c = cid then apply_patch body c else deactivate c) (channels s)
               = map (\<lambda>c. if c_id c = cid then c else deactivate c) (channels s)"
      by (intro map_cong refl) simp
    with None pe show ?thesis
      by (simp add: u storage_updateChannel_def find_keep_target)
  next
    case (Some c)
    with pe show ?thesis
      by (simp add: u storage_updateChannel_def find_keep_target m)
  qed
qed

lemma filter_active_target:
  assumes d: "distinct (map c_id xs)" and f: "find (\<lambda>c. c_id c = cid) xs = Some c"
    and a: "c_isActive (g c) = Some True"
  shows "filter (\<lambda>c. c_isActive c = Some True)
           (map (\<lambda>c. if c_id c = cid then g c else deactivate c) xs) = [g c]"
  using d f
proof (induction xs)
  case Nil
  then show ?case by simp
next
  case (Cons x xs)
  show ?case
  proof (cases "c_id x = cid")
    case True
    with Cons.prems have xc: "x = c" by simp
    from True Cons.prems(1) have "\<forall>y \<in> set xs. c_id y \<noteq> cid" by (auto simp: image_iff)
    then have "map (\<lambda>c. if c_id c = cid then g c else deactivate c) xs = map deactivate xs"
      by (intro map_cong refl) simp
    with True xc a show ?thesis by (simp add: filter_active_deactivate)
  next
    case False
    with Cons show ?thesis by simp
  qed
qed

text \<open>
  What the two loops achieve when the request says \<open>isActive: true\<close>: when
  \<open>createChannel\<close> has created a channel, or \<open>updateChannel\<close> has updated one, that
  channel is the only active channel, and the table is the previous one with every
  other channel that was active set to \<open>isActive\<close> false. Channel ids are a primary key.
\<close>

lemma only_channel_active:
  assumes "distinct (map c_id (channels s))"
  shows "(b_isActive body = Some (Some True) \<and>
          createChannel body gen response now s = (Inr r, s1)
            \<longrightarrow> (\<exists>ch. r = Some ch \<and> active_channels s1 = [ch] \<and>
                       channels s1 = map deactivate (channels s) @ [ch])) \<and>
         (p_isActive patch = Some (JBool True) \<and> updateChannel cid patch s = (Inr ch', s2)
            \<longrightarrow> active_channels s2 = [ch'] \<and> c_id ch' = cid \<and>
                channels s2 = map (\<lambda>c. if c_id c = cid then apply_patch patch c else deactivate c)
                                (channels s))"
proof (rule conjI; rule impI)
  assume a: "b_isActive body = Some (Some True) \<and>
             createChannel body gen response now s = (Inr r, s1)"
  from createChannel_active [OF assms, of body gen response now r s1] a
  obtain ch where ch: "r = Some ch" "c_isActive ch = Some True"
      "s1 = s\<lparr>channels := map deactivate (channels s) @ [ch]\<rparr>" by blast
  then have "active_channels s1 = [ch]"
    by (simp add: active_channels_def filter_active_deactivate)
  with ch show "\<exists>ch. r = Some ch \<and> active_channels s1 = [ch] \<and>
                     channels s1 = map deactivate (channels s) @ [ch]" by simp
next
  assume a: "p_isActive patch = Some (JBool True) \<and> updateChannel cid patch s = (Inr ch', s2)"
  then have act: "p_isActive patch = Some (JBool True)" by simp
  note u = updateChannel_active [OF assms act, of cid]
  from a u obtain c where c: "find (\<lambda>c. c_id c = cid) (channels s) = Some c"
      "ch' = apply_patch patch c"
    by (cases "find (\<lambda>c. c_id c = cid) (channels s)") auto
  have on: "c_isActive (apply_patch patch c) = Some True"
    using act by (simp add: apply_patch_def to_boolean_def)
  from a u have ch2: "channels s2
      = map (\<lambda>c. if c_id c = cid then apply_patch patch c else deactivate c) (channels s)" by simp
  from c(1) have "c_id c = cid" by (auto simp: find_Some_iff)
  with c(2) have "c_id ch' = cid" by simp
  moreover have "active_channels s2 = [ch']"
    using filter_active_target [OF assms c(1), of "apply_patch patch", OF on] ch2 c(2)
    by (simp add: active_channels_def)
  ultimately show "active_channels s2 = [ch'] \<and> c_id ch' = cid \<and>
      channels s2 = map (\<lambda>c. if c_id c = cid then apply_patch patch c else deactivate c) (channels s)"
    using ch2 by simp
qed

lemmas shop_defs = shop_def channel_one_def channel_two_def contact_one_def new_channel_body_def
  activate_def no_patch_def set_inactive_def empty_storage_def body_ann_def body_bob_def
  body_nameless_def channel_three_def shop_created_def shop_updated_def
  default_channel_body_def activate_as_text_def shop_two_after_create_def
  shop_two_after_update_def

lemmas channel_eval = createChannel_def insertChannelSchema_parse_def storage_getChannels_def
  storage_updateChannel_def storage_createChannel_def storage_getChannel_def
  health_update_def apply_patch_def patch_error_def to_boolean_def updateChannel_def Let_def

lemma createChannel_shop:
  "createChannel new_channel_body ''c3'' HealthThrows 0 shop = (Inr (Some channel_three), shop_created)"
  by (simp add: channel_eval shop_defs)

lemma updateChannel_shop:
  "updateChannel ''c2'' activate shop = (Inr (channel_two\<lparr>c_isActive := Some True\<rparr>), shop_updated)"
  by (simp add: channel_eval shop_defs)

text \<open>In \<open>shop\<close>: a third channel is created active, and channel \<open>c2\<close> is set active.\<close>

lemma only_channel_active_shop:
  "distinct (map c_id (channels shop)) \<and>
   b_isActive new_channel_body = Some (Some True) \<and>
   p_isActive activate = Some (JBool True) \<and>
   active_channels shop = [channel_one] \<and>
   createChannel new_channel_body ''c3'' HealthThrows 0 shop = (Inr (Some channel_three), shop_created) \<and>
   active_channels shop_created = [channel_three] \<and>
   updateChannel ''c2'' activate shop = (Inr (channel_two\<lparr>c_isActive := Some True\<rparr>), shop_updated) \<and>
   active_channels shop_updated = [channel_two\<lparr>c_isActive := Some True\<rparr>]"
proof -
  have d: "distinct (map c_id (channels shop))" by (simp add: shop_defs)
  have b: "b_isActive new_channel_body = Some (Some True)" by (simp add: shop_defs)
  have p: "p_isActive activate = Some (JBool True)" by (simp add: shop_defs)
  have a: "active_channels shop = [channel_one]" by (simp add: active_channels_def shop_defs)
  note t = only_channel_active [OF d, where body = new_channel_body and gen = "''c3''"
             and response = HealthThrows and now = 0 and r = "Some channel_three"
             and ?s1.0 = shop_created and patch = activate and cid = "''c2''"
             and ch' = "channel_two\<lparr>c_isActive := Some True\<rparr>" and ?s2.0 = shop_updated]
  from t b createChannel_shop
  obtain ch where "Some channel_three = Some ch" "active_channels shop_created = [ch]" by blast
  then have 1: "active_channels shop_created = [channel_three]" by simp
  from t p updateChannel_shop
  have 2: "active_channels shop_updated = [channel_two\<lparr>c_isActive := Some True\<rparr>]" by blast
  from d b p a 1 2 createChannel_shop updateChannel_shop show ?thesis by blast
qed

text \<open>
  Claim C8. At most one channel is active at a time: from a state with at most one
  active channel, after \<open>createChannel\<close> or \<open>updateChannel\<close> has made a channel active,
  that channel is the only active one. The code does so only when the request says
  \<open>isActive: true\<close>. In \<open>shop\<close> channel \<open>c1\<close> is the one active channel. A create
  whose body leaves \<open>isActive\<close> out skips the loop, since the guard tests the body, and
  the column default makes the new channel active; an update whose body has the string
  \<open>"true"\<close> fails the test \<open>=== true\<close>, and the store reads the string as true. After
  either request two channels are active.
\<close>

theorem two_active_channels:
  "active_channels shop = [channel_one] \<and>
   createChannel default_channel_body ''c3'' HealthThrows 0 shop
     = (Inr (Some channel_three), shop_two_after_create) \<and>
   active_channels shop_two_after_create = [channel_one, channel_three] \<and>
   updateChannel ''c2'' activate_as_text shop
     = (Inr (channel_two\<lparr>c_isActive := Some True\<rparr>), shop_two_after_update) \<and>
   active_channels shop_two_after_update = [channel_one, channel_two\<lparr>c_isActive := Some True\<rparr>]"
  by (simp add: channel_eval active_channels_def shop_defs)

section \<open>Creating and importing contacts\<close>

lemmas import_defs = import_retry_def import_three_def contact_bob_def

text \<open>
  Claim C9 says that \<open>createContact\<close> creates and returns the contact whenever the
  resolved contact set has no contact with the requested phone. Two requests whose
  phone \<open>222\<close> is not in the resolved set and that create nothing: a body without a
  name, which \<open>insertContactSchema.parse\<close> rejects before the duplicate check, and a
  valid body with a \<open>channelId\<close> that is no stored channel, whose insert breaks the
  foreign key of \<open>contacts.channel_id\<close>.
\<close>

theorem createContact_creates_counterexample:
  "\<not> list_ex (\<lambda>c. k_phone c = ''222'') (existingContacts (resolve_channelId None shop) shop) \<and>
   createContact body_nameless None ''k2'' shop = (Inl (ZodError ''Required''), shop) \<and>
   \<not> list_ex (\<lambda>c. k_phone c = ''222'')
        (existingContacts (resolve_channelId (Some ''ghost'') shop) shop) \<and>
   createContact body_bob (Some ''ghost'') ''k2'' shop
     = (Inl (DatabaseError (ForeignKeyViolation ''contacts_channel_id_fk'')), shop)"
  by (simp add: createContact_def insertContactSchema_parse_def resolve_channelId_def
        existingContacts_def truthy_def storage_getActiveChannel_def
        storage_getContactsByChannel_def storage_getContacts_def storage_createContact_def
        Let_def shop_defs)

text \<open>
  When the resolved set has no contact with the phone, the unique constraint on
  (\<open>channel_id\<close>, \<open>phone\<close>) cannot reject the new row.
\<close>

lemma no_unique_conflict:
  assumes "\<not> list_ex (\<lambda>c. k_phone c = p) (existingContacts ch s)"
  shows "\<not> (ch \<noteq> None \<and> (ch, p) \<in> set (map (\<lambda>k. (k_channelId k, k_phone k)) (contacts s)))"
  using assms
  by (auto simp: existingContacts_def storage_getContactsByChannel_def storage_getContacts_def
        list_ex_iff truthy_def split: if_splits option.splits)

text \<open>
  Claim C9 as amended. For a request body that passes validation, \<open>createContact\<close>
  fails with a 409 error and leaves the store unchanged whenever the resolved contact
  set (the contacts of the requested or else the active channel, or all contacts when
  no channel resolves) has a contact with the requested phone; otherwise, when the
  resolved channel, if any, is a stored channel (and the generated key is fresh), it
  appends the new contact, with the resolved channel, and returns it.
\<close>

theorem createContact_conflict_or_insert:
  assumes "insertContactSchema_parse body None = Inr v"
  shows "(list_ex (\<lambda>c. k_phone c = ik_phone v) (existingContacts (resolve_channelId q s) s)
            \<longrightarrow> createContact body q gen s
                  = (Inl (AppError 409 ''Contact with this phone number already exists''), s)) \<and>
         (\<not> list_ex (\<lambda>c. k_phone c = ik_phone v) (existingContacts (resolve_channelId q s) s) \<and>
          gen \<notin> set (map k_id (contacts s)) \<and>
          (\<forall>cid. resolve_channelId q s = Some cid \<longrightarrow> cid \<in> set (map c_id (channels s)))
            \<longrightarrow> createContact body q gen s
                  = (Inr \<lparr>k_id = gen, k_channelId = resolve_channelId q s, k_name = ik_name v,
                          k_phone = ik_phone v, k_email = ik_email v\<rparr>,
                     s\<lparr>contacts := contacts s @
                         [\<lparr>k_id = gen, k_channelId = resolve_channelId q s, k_name = ik_name v,
                           k_phone = ik_phone v, k_email = ik_email v\<rparr>]\<rparr>))"
proof (rule conjI; rule impI)
  assume "list_ex (\<lambda>c. k_phone c = ik_phone v) (existingContacts (resolve_channelId q s) s)"
  with assms show "createContact body q gen s
                  = (Inl (AppError 409 ''Contact with this phone number already exists''), s)"
    by (simp add: createContact_def)
next
  assume a: "\<not> list_ex (\<lambda>c. k_phone c = ik_phone v) (existingContacts (resolve_channelId q s) s) \<and>
          gen \<notin> set (map k_id (contacts s)) \<and>
          (\<forall>cid. resolve_channelId q s = Some cid \<longrightarrow> cid \<in> set (map c_id (channels s)))"
  from a no_unique_conflict [of "ik_phone v" "resolve_channelId q s" s]
  have u: "\<not> (resolve_channelId q s \<noteq> None \<and>
              (resolve_channelId q s, ik_phone v)
                \<in> set (map (\<lambda>k. (k_channelId k, k_phone k)) (contacts s)))" by blast
  from a have fk: "\<not> (case resolve_channelId q s of None \<Rightarrow> False
                       | Some cid \<Rightarrow> cid \<notin> set (map c_id (channels s)))"
    by (auto split: option.splits)
  from a have pk: "gen \<notin> set (map k_id (contacts s))" by blast
  have "storage_createContact (v\<lparr>ik_channelId := resolve_channelId q s\<rparr>) gen s
        = (Inr \<lparr>k_id = gen, k_channelId = resolve_channelId q s, k_name = ik_name v,
                          k_phone = ik_phone v, k_email = ik_email v\<rparr>,
                     s\<lparr>contacts := contacts s @
                         [\<lparr>k_id = gen, k_channelId = resolve_channelId q s, k_name = ik_name v,
                           k_phone = ik_phone v, k_email = ik_email v\<rparr>]\<rparr>)"
    unfolding storage_createContact_def using u fk pk by (simp add: Let_def)
  with a assms show "createContact body q gen s
                  = (Inr \<lparr>k_id = gen, k_channelId = resolve_channelId q s, k_name = ik_name v,
                          k_phone = ik_phone v, k_email = ik_email v\<rparr>,
                     s\<lparr>contacts := contacts s @
                         [\<lparr>k_id = gen, k_channelId = resolve_channelId q s, k_name = ik_name v,
                           k_phone = ik_phone v, k_email = ik_email v\<rparr>]\<rparr>)"
    by (simp add: createContact_def Let_def)
qed

text \<open>
  Witness for the amended C9: in \<open>shop\<close> the active channel \<open>c1\<close> has a contact
  with phone \<open>111\<close>; a second one is refused, and phone \<open>222\<close> is created.
\<close>

theorem createContact_conflict_or_insert_witness:
  "insertContactSchema_parse body_ann None
     = Inr \<lparr>ik_channelId = None, ik_name = ''Ann again'', ik_phone = ''111'', ik_email = None\<rparr> \<and>
   createContact body_ann None ''k2'' shop
     = (Inl (AppError 409 ''Contact with this phone number already exists''), shop) \<and>
   insertContactSchema_parse body_bob None
     = Inr \<lparr>ik_channelId = None, ik_name = ''Bob'', ik_phone = ''222'', ik_email = None\<rparr> \<and>
   resolve_channelId None shop = Some ''c1'' \<and>
   createContact body_bob None ''g2'' shop
     = (Inr contact_bob, shop\<lparr>contacts := contacts shop @ [contact_bob]\<rparr>)"
proof -
  let ?va = "\<lparr>ik_channelId = None, ik_name = ''Ann again'', ik_phone = ''111'', ik_email = None\<rparr>"
  let ?vb = "\<lparr>ik_channelId = None, ik_name = ''Bob'', ik_phone = ''222'', ik_email = None\<rparr>"
  have pa: "insertContactSchema_parse body_ann None = Inr ?va"
    by (simp add: insertContactSchema_parse_def shop_defs)
  have pb: "insertContactSchema_parse body_bob None = Inr ?vb"
    by (simp add: insertContactSchema_parse_def shop_defs)
  have r: "resolve_channelId None shop = Some ''c1''"
    by (simp add: resolve_channelId_def truthy_def storage_getActiveChannel_def shop_defs)
  have e: "existingContacts (Some ''c1'') shop = [contact_one]"
    by (simp add: existingContacts_def truthy_def storage_getContactsByChannel_def shop_defs)
  have da: "list_ex (\<lambda>c. k_phone c = ik_phone ?va) (existingContacts (resolve_channelId None shop) shop)"
    by (simp add: r e) (simp add: shop_defs)
  have db: "\<not> list_ex (\<lambda>c. k_phone c = ik_phone ?vb) (existingContacts (resolve_channelId None shop) shop) \<and>
          ''g2'' \<notin> set (map k_id (contacts shop)) \<and>
          (\<forall>cid. resolve_channelId None shop = Some cid \<longrightarrow> cid \<in> set (map c_id (channels shop)))"
    by (simp add: r e) (simp add: shop_defs)
  have row: "\<lparr>k_id = ''g2'', k_channelId = resolve_channelId None shop, k_name = ik_name ?vb,
              k_phone = ik_phone ?vb, k_email = ik_email ?vb\<rparr> = contact_bob"
    by (simp add: r import_defs)
  from createContact_conflict_or_insert [OF pa, of None shop "''k2''"] da
  have 1: "createContact body_ann None ''k2'' shop
     = (Inl (AppError 409 ''Contact with this phone number already exists''), shop)" by blast
  from createContact_conflict_or_insert [OF pb, of None shop "''g2''"] db
  have 2: "createContact body_bob None ''g2'' shop
     = (Inr contact_bob, shop\<lparr>contacts := contacts shop @ [contact_bob]\<rparr>)"
    unfolding row by blast
  from pa pb r 1 2 show ?thesis by blast
qed

text \<open>
  Every round of the import loop adds one entry to exactly one of the three lists, and
  the phones seen so far are those of the existing contacts and of the contacts created
  by this import.
\<close>

lemma import_step_count:
  "length (createdContacts (import_step ch item st)) + length (duplicates (import_step ch item st))
     + length (errors (import_step ch item st))
   = Suc (length (createdContacts st) + length (duplicates st) + length (errors st))"
  by (simp add: import_step_def Let_def split: sum.splits prod.splits option.splits)

lemma import_loop_count:
  "length (createdContacts (import_loop ch items st)) + length (duplicates (import_loop ch items st))
     + length (errors (import_loop ch items st))
   = length (createdContacts st) + length (duplicates st) + length (errors st) + length items"
proof (induction items arbitrary: st)
  case Nil
  show ?case by simp
next
  case (Cons item items)
  show ?case
    using Cons.IH [of "import_step ch item st"] import_step_count [of ch item st] by simp
qed

lemma import_step_phones:
  assumes "existingPhones st = P \<union> set (map k_phone (createdContacts st))"
  shows "existingPhones (import_step ch item st)
           = P \<union> set (map k_phone (createdContacts (import_step ch item st)))"
  using assms
  by (auto simp: import_step_def Let_def split: sum.splits prod.splits option.splits)

lemma import_loop_phones:
  assumes "existingPhones st = P \<union> set (map k_phone (createdContacts st))"
  shows "existingPhones (import_loop ch items st)
           = P \<union> set (map k_phone (createdContacts (import_loop ch items st)))"
  using assms
proof (induction items arbitrary: st)
  case Nil
  then show ?case by simp
next
  case (Cons item items)
  from Cons.IH [OF import_step_phones [OF Cons.prems]] show ?case by simp
qed

lemma import_start_phones:
  "existingPhones (import_loop ch pre (import_start ch s))
     = set (map k_phone (existingContacts ch s))
       \<union> set (map k_phone (createdContacts (import_loop ch pre (import_start ch s))))"
  by (rule import_loop_phones) (simp add: import_start_def)

text \<open>
  Claim C10 as amended. For every import request whose \<open>contacts\<close> field is an array,
  the reported \<open>created\<close>, \<open>duplicates\<close> and \<open>failed\<close> counts sum to the reported
  \<open>total\<close>, which is the length of the array; and an item whose phone is that of an
  existing contact of the resolved set, or of a contact created earlier by the same
  import, is added to the duplicates and nothing else changes: no contact is created.
\<close>

theorem importContacts_partition:
  assumes "ib_contacts body = Some items"
  shows "(\<exists>resp s'. importContacts body q s = (Inr resp, s') \<and>
            r_created resp + r_duplicates resp + r_failed resp = r_total resp \<and>
            r_total resp = length items) \<and>
         (items = pre @ (c, g) # post \<and> cb_phone c = Some p \<and>
          (p \<in> set (map k_phone (existingContacts (import_channelId body q s) s)) \<or>
           p \<in> set (map k_phone (createdContacts
                 (import_loop (import_channelId body q s) pre
                    (import_start (import_channelId body q s) s)))))
          \<longrightarrow> import_step (import_channelId body q s) (c, g)
                  (import_loop (import_channelId body q s) pre
                     (import_start (import_channelId body q s) s))
                = (import_loop (import_channelId body q s) pre
                     (import_start (import_channelId body q s) s))
                  \<lparr>duplicates :=
                     duplicates (import_loop (import_channelId body q s) pre
                                  (import_start (import_channelId body q s) s)) @ [c]\<rparr>)"
proof (rule conjI)
  let ?ch = "import_channelId body q s"
  have "length (createdContacts (import_loop ?ch items (import_start ?ch s)))
          + length (duplicates (import_loop ?ch items (import_start ?ch s)))
          + length (errors (import_loop ?ch items (import_start ?ch s))) = length items"
    using import_loop_count [of ?ch items "import_start ?ch s"] by (simp add: import_start_def)
  with assms show "\<exists>resp s'. importContacts body q s = (Inr resp, s') \<and>
            r_created resp + r_duplicates resp + r_failed resp = r_total resp \<and>
            r_total resp = length items"
    by (simp add: importContacts_def Let_def)
next
  let ?ch = "import_channelId body q s"
  let ?st = "import_loop ?ch pre (import_start ?ch s)"
  show "items = pre @ (c, g) # post \<and> cb_phone c = Some p \<and>
          (p \<in> set (map k_phone (existingContacts ?ch s)) \<or>
           p \<in> set (map k_phone (createdContacts ?st)))
          \<longrightarrow> import_step ?ch (c, g) ?st = ?st\<lparr>duplicates := duplicates ?st @ [c]\<rparr>"
  proof
    assume a: "items = pre @ (c, g) # post \<and> cb_phone c = Some p \<and>
          (p \<in> set (map k_phone (existingContacts ?ch s)) \<or>
           p \<in> set (map k_phone (createdContacts ?st)))"
    then have "p \<in> existingPhones ?st" using import_start_phones [of ?ch pre s] by blast
    with a show "import_step ?ch (c, g) ?st = ?st\<lparr>duplicates := duplicates ?st @ [c]\<rparr>"
      by (simp add: import_step_def)
  qed
qed

text \<open>
  Claim C10 says that an item whose phone duplicates any earlier item of the same
  import is counted as a duplicate. Only the phones of created contacts are remembered:
  when the earlier item failed validation, the later item with the same phone is created.
\<close>

theorem importContacts_earlier_failed_counterexample:
  "cb_phone body_bob = cb_phone body_nameless \<and>
   importContacts import_retry None empty_storage
     = (Inr \<lparr>r_created = 1, r_duplicates = 0, r_failed = 1, r_total = 2,
             r_details_duplicates = [],
             r_details_errors = [(body_nameless, ZodError ''Required'')]\<rparr>,
        \<lparr>channels = [],
          contacts = [\<lparr>k_id = ''g2'', k_channelId = None, k_name = ''Bob'', k_phone = ''222'',
                        k_email = None\<rparr>]\<rparr>)"
  by (simp add: importContacts_def import_channelId_def resolve_channelId_def truthy_def
        storage_getActiveChannel_def import_start_def existingContacts_def
        storage_getContacts_def storage_getContactsByChannel_def import_step_def
        insertContactSchema_parse_def storage_createContact_def Let_def shop_defs import_defs)

text \<open>The rounds of \<open>import_three\<close> on \<open>shop\<close>, one by one.\<close>

lemma start_shop:
  "import_start (Some ''c1'') shop
     = \<lparr>store = shop, existingPhones = {''111''}, createdContacts = [], duplicates = [], errors = []\<rparr>"
  by (simp add: import_start_def existingContacts_def truthy_def storage_getContactsByChannel_def
        shop_defs)

lemma step1:
  "import_step (Some ''c1'') (body_ann, ''g1'')
      \<lparr>store = shop, existingPhones = {''111''}, createdContacts = [], duplicates = [], errors = []\<rparr>
   = \<lparr>store = shop, existingPhones = {''111''}, createdContacts = [], duplicates = [body_ann], errors = []\<rparr>"
  by (simp add: import_step_def body_ann_def)

lemma step2:
  "import_step (Some ''c1'') (body_bob, ''g2'')
      \<lparr>store = shop, existingPhones = {''111''}, createdContacts = [], duplicates = [body_ann], errors = []\<rparr>
   = \<lparr>store = shop\<lparr>contacts := contacts shop @ [contact_bob]\<rparr>, existingPhones = {''222'', ''111''},
      createdContacts = [contact_bob], duplicates = [body_ann], errors = []\<rparr>"
  by (simp add: import_step_def insertContactSchema_parse_def storage_createContact_def Let_def
        body_bob_def contact_bob_def shop_def contact_one_def channel_one_def channel_two_def)


lemma step3:
  "import_step (Some ''c1'') (body_bob, ''g3'')
      \<lparr>store = shop\<lparr>contacts := contacts shop @ [contact_bob]\<rparr>, existingPhones = {''222'', ''111''},
        createdContacts = [contact_bob], duplicates = [body_ann], errors = []\<rparr>
   = \<lparr>store = shop\<lparr>contacts := contacts shop @ [contact_bob]\<rparr>, existingPhones = {''222'', ''111''},
      createdContacts = [contact_bob], duplicates = [body_ann, body_bob], errors = []\<rparr>"
  by (simp add: import_step_def body_bob_def)

lemma import_three_channel: "import_channelId import_three None shop = Some ''c1''"
  by (simp add: import_channelId_def resolve_channelId_def truthy_def
        storage_getActiveChannel_def shop_defs import_defs)

text \<open>
  Witness for the amended C10: of three items, the first repeats a stored phone, the
  second is created, the third repeats the second.
\<close>

theorem importContacts_partition_witness:
  "ib_contacts import_three = Some [(body_ann, ''g1''), (body_bob, ''g2''), (body_bob, ''g3'')] \<and>
   import_channelId import_three None shop = Some ''c1'' \<and>
   cb_phone body_bob = Some ''222'' \<and>
   createdContacts (import_loop (Some ''c1'') [(body_ann, ''g1''), (body_bob, ''g2'')]
                      (import_start (Some ''c1'') shop)) = [contact_bob] \<and>
   duplicates (import_step (Some ''c1'') (body_bob, ''g3'')
                 (import_loop (Some ''c1'') [(body_ann, ''g1''), (body_bob, ''g2'')]
                    (import_start (Some ''c1'') shop))) = [body_ann, body_bob] \<and>
   importContacts import_three None shop
     = (Inr \<lparr>r_created = 1, r_duplicates = 2, r_failed = 0, r_total = 3,
             r_details_duplicates = [body_ann, body_bob], r_details_errors = []\<rparr>,
        shop\<lparr>contacts := contacts shop @ [contact_bob]\<rparr>)"
proof -
  let ?pre = "[(body_ann, ''g1''), (body_bob, ''g2'')]"
  let ?st = "import_loop (Some ''c1'') ?pre (import_start (Some ''c1'') shop)"
  have h: "ib_contacts import_three = Some (?pre @ (body_bob, ''g3'') # [])"
    by (simp add: import_defs)
  note ch = import_three_channel
  have p: "cb_phone body_bob = Some ''222''" by (simp add: body_bob_def)
  have cr: "createdContacts ?st = [contact_bob]" by (simp add: start_shop step1 step2)
  have du: "duplicates ?st = [body_ann]" by (simp add: start_shop step1 step2)
  have ev: "importContacts import_three None shop
     = (Inr \<lparr>r_created = 1, r_duplicates = 2, r_failed = 0, r_total = 3,
             r_details_duplicates = [body_ann, body_bob], r_details_errors = []\<rparr>,
        shop\<lparr>contacts := contacts shop @ [contact_bob]\<rparr>)"
    using h by (simp add: importContacts_def ch start_shop step1 step2 step3)
  have inp: "''222'' \<in> set (map k_phone (createdContacts ?st))"
    unfolding cr by (simp add: contact_bob_def)
  note t = importContacts_partition [OF h, where q = None and s = shop and pre = ?pre
             and c = body_bob and g = "''g3''" and post = "[]" and p = "''222''"]
  from t p inp have "import_step (Some ''c1'') (body_bob, ''g3'') ?st
                       = ?st\<lparr>duplicates := duplicates ?st @ [body_bob]\<rparr>"
    unfolding ch by blast
  then have "duplicates (import_step (Some ''c1'') (body_bob, ''g3'') ?st) = duplicates ?st @ [body_bob]"
    by (rule ssubst) simp
  then have d3: "duplicates (import_step (Some ''c1'') (body_bob, ''g3'') ?st) = [body_ann, body_bob]"
    unfolding du by simp
  have h': "ib_contacts import_three = Some [(body_ann, ''g1''), (body_bob, ''g2''), (body_bob, ''g3'')]"
    using h by simp
  from h' ch p cr d3 ev show ?thesis by blast
qed

section \<open>The status of a run\<close>

text \<open>Appending a log entry and marking a run failed touch nothing else.\<close>

lemma execution_append_log [simp]: "execution (append_log E node st err r) = execution r"
  by (simp add: append_log_def)

lemma resumeAt_append_log [simp]: "resumeAt (append_log E node st err r) = resumeAt r"
  by (simp add: append_log_def)

lemma status_mark_failed [simp]: "x_status (execution (mark_failed err r)) = ''failed''"
  by (simp add: mark_failed_def)

lemma status_apply_outcome:
  "x_status (execution r) = ''running'' \<Longrightarrow> status_ok (apply_outcome E node out r)"
  by (cases out)
     (auto simp: apply_outcome_def status_ok_def Let_def split: list.splits)

lemma status_engine_step: "status_ok r \<Longrightarrow> status_ok (engine_step E now r)"
proof (cases "x_status (execution r) = ''running''")
  case False
  assume "status_ok r"
  with False show ?thesis by (simp add: engine_step_def)
next
  case True
  then have "x_status (execution (append_log E node ''started'' None r)) = ''running''" for node
    by simp
  from status_apply_outcome [OF this] True show ?thesis
    by (auto simp: engine_step_def Let_def status_ok_def split: option.splits)
qed

lemma status_engine_resume: "status_ok r \<Longrightarrow> status_ok (engine_resume now r)"
  by (simp add: engine_resume_def status_ok_def)

lemma status_create: "status_ok (create_execution xid aid trigger)"
  by (simp add: create_execution_def status_ok_def)

lemma reachable_status_ok: "engine_reachable E r \<Longrightarrow> status_ok r"
  by (induction rule: engine_reachable.induct)
     (simp_all add: status_create status_engine_step status_engine_resume)

lemma terminal_step:
  assumes "x_status (execution r) = ''completed'' \<or> x_status (execution r) = ''failed''"
  shows "engine_step E now r = r" and "engine_resume now r = r" and "engine_run fuel E now r = r"
proof -
  from assms show "engine_step E now r = r" by (auto simp: engine_step_def)
  from assms show "engine_resume now r = r" by (auto simp: engine_resume_def)
  from assms show "engine_run fuel E now r = r" by (cases fuel) auto
qed

lemma defer_step:
  assumes "x_status (execution r) = ''running''" and "x_currentNodeId (execution r) = Some cur"
    and "find (\<lambda>n. n_nodeId n = cur) (g_nodes E) = Some node"
    and "evaluators E (n_type node) (n_subtype node) = Some ev"
    and "ev node (append_log E node ''started'' None r) now = Defer t"
  shows "x_status (execution (engine_step E now r)) = ''waiting'' \<and>
         resumeAt (engine_step E now r) = Some t"
  using assms by (simp add: engine_step_def apply_outcome_def Let_def)

lemma resume_due:
  assumes "x_status (execution r) = ''waiting''" and "resumeAt r = Some t" and "t \<le> now"
  shows "x_status (execution (engine_resume now r)) = ''running''"
  using assms by (simp add: engine_resume_def)

lemma run_reachable: "engine_reachable E r \<Longrightarrow> engine_reachable E (engine_run fuel E now r)"
  by (induction fuel arbitrary: r) (auto intro: engine_reachable.stepped)

text \<open>
  Claim C4. For every Execution the engine produces, the status is one of the four
  values \<open>running\<close>, \<open>waiting\<close>, \<open>completed\<close>, \<open>failed\<close>; \<open>completed\<close> and
  \<open>failed\<close> are terminal: neither a step, nor a turn, nor a resume changes such a
  run; and \<open>waiting\<close> is reachable: a step at a node whose evaluator defers moves a
  running execution to \<open>waiting\<close>, and a resume at or after the resume time moves it
  back to \<open>running\<close>.
\<close>

theorem execution_status_machine:
  "(engine_reachable E r \<longrightarrow>
      x_status (execution r) \<in> {''running'', ''waiting'', ''completed'', ''failed''}) \<and>
   (x_status (execution r) = ''completed'' \<or> x_status (execution r) = ''failed'' \<longrightarrow>
      engine_step E now r = r \<and> engine_resume now r = r \<and> engine_run fuel E now r = r) \<and>
   (x_status (execution r) = ''running'' \<and> x_currentNodeId (execution r) = Some cur \<and>
    find (\<lambda>n. n_nodeId n = cur) (g_nodes E) = Some node \<and>
    evaluators E (n_type node) (n_subtype node) = Some ev \<and>
    ev node (append_log E node ''started'' None r) now = Defer t \<longrightarrow>
      x_status (execution (engine_step E now r)) = ''waiting'' \<and>
      resumeAt (engine_step E now r) = Some t) \<and>
   (x_status (execution r) = ''waiting'' \<and> resumeAt r = Some t \<and> t \<le> now \<longrightarrow>
      x_status (execution (engine_resume now r)) = ''running'')"
proof (intro conjI impI)
  assume "engine_reachable E r"
  then have "status_ok r" by (rule reachable_status_ok)
  then show "x_status (execution r) \<in> {''running'', ''waiting'', ''completed'', ''failed''}"
    by (simp add: status_ok_def)
next
  assume a: "x_status (execution r) = ''completed'' \<or> x_status (execution r) = ''failed''"
  from terminal_step(1) [OF a] show "engine_step E now r = r" .
  from terminal_step(2) [OF a] show "engine_resume now r = r" .
  from terminal_step(3) [OF a] show "engine_run fuel E now r = r" .
next
  assume a: "x_status (execution r) = ''running'' \<and> x_currentNodeId (execution r) = Some cur \<and>
    find (\<lambda>n. n_nodeId n = cur) (g_nodes E) = Some node \<and>
    evaluators E (n_type node) (n_subtype node) = Some ev \<and>
    ev node (append_log E node ''started'' None r) now = Defer t"
  then have d: "x_status (execution (engine_step E now r)) = ''waiting'' \<and>
         resumeAt (engine_step E now r) = Some t"
    by (intro defer_step [of r cur E node ev now t]) simp_all
  from d show "x_status (execution (engine_step E now r)) = ''waiting''" by simp
  from d show "resumeAt (engine_step E now r) = Some t" by simp
next
  assume "x_status (execution r) = ''waiting'' \<and> resumeAt r = Some t \<and> t \<le> now"
  then show "x_status (execution (engine_resume now r)) = ''running''"
    by (intro resume_due [of r t now]) simp_all
qed


text \<open>The sample run, evaluated.\<close>

lemma sample_done_reachable: "engine_reachable sample_engine sample_done"
  unfolding sample_done_def sample_waiting_def
  by (intro run_reachable engine_reachable.resumed engine_reachable.created)

lemma sample_done_facts:
  "x_status (execution sample_done) = ''completed''"
  by code_simp

lemma sample_waiting_facts:
  "x_status (execution sample_waiting) = ''waiting''"
  "resumeAt sample_waiting = Some 60"
  by code_simp+

lemma sample_delay_evaluator:
  "evaluators sample_engine (n_type node_D1) (n_subtype node_D1) = Some delay_evaluator"
  by (simp add: sample_engine_def sample_evaluators_def node_D1_def)

lemma sample_at_delay_facts:
  "x_status (execution sample_at_delay) = ''running''"
  "x_currentNodeId (execution sample_at_delay) = Some ''D1''"
  "find (\<lambda>n. n_nodeId n = ''D1'') (g_nodes sample_engine) = Some node_D1"
  "delay_evaluator node_D1 (append_log sample_engine node_D1 ''started'' None sample_at_delay) 0
     = Defer 60"
  by code_simp+

lemma sample_failed:
  "x_status (execution (engine_step sample_engine 0 (create_execution ''x2'' ''A'' ''ZZ''))) = ''failed''"
  by code_simp

text \<open>
  Witness for C4: the sample run waits at its delay node, is resumed and completes; a
  run created at a node that is not in the graph fails.
\<close>

theorem execution_status_machine_witness:
  "engine_reachable sample_engine sample_done \<and>
   x_status (execution (create_execution ''x2'' ''A'' ''ZZ'')) = ''running'' \<and>
   x_status (execution (engine_step sample_engine 0 (create_execution ''x2'' ''A'' ''ZZ''))) = ''failed'' \<and>
   x_status (execution sample_done) = ''completed'' \<and>
   engine_step sample_engine 200 sample_done = sample_done \<and>
   engine_resume 200 sample_done = sample_done \<and>
   x_status (execution sample_at_delay) = ''running'' \<and>
   x_status (execution (engine_step sample_engine 0 sample_at_delay)) = ''waiting'' \<and>
   resumeAt (engine_step sample_engine 0 sample_at_delay) = Some 60 \<and>
   x_status (execution sample_waiting) = ''waiting'' \<and>
   x_status (execution (engine_resume 100 sample_waiting)) = ''running''"
proof -
  note t1 = execution_status_machine [where E = sample_engine and r = sample_done and now = 200
              and fuel = 0]
  note t2 = execution_status_machine [where E = sample_engine and r = sample_at_delay
              and cur = "''D1''" and node = node_D1 and ev = delay_evaluator and now = 0
              and t = 60]
  note t3 = execution_status_machine [where E = sample_engine and r = sample_waiting
              and t = 60 and now = 100]
  from t1 sample_done_reachable sample_done_facts(1)
  have 1: "engine_step sample_engine 200 sample_done = sample_done \<and>
           engine_resume 200 sample_done = sample_done" by blast
  from t2 sample_at_delay_facts sample_delay_evaluator
  have 2: "x_status (execution (engine_step sample_engine 0 sample_at_delay)) = ''waiting'' \<and>
           resumeAt (engine_step sample_engine 0 sample_at_delay) = Some 60" by blast
  have "(60::nat) \<le> 100" by simp
  with t3 sample_waiting_facts(1,2)
  have 3: "x_status (execution (engine_resume 100 sample_waiting)) = ''running''" by blast
  have 4: "x_status (execution (create_execution ''x2'' ''A'' ''ZZ'')) = ''running''"
    by (simp add: create_execution_def)
  from 1 2 3 4 sample_failed sample_done_reachable sample_done_facts(1) sample_at_delay_facts(1)
    sample_waiting_facts(1)
  show ?thesis by blast
qed

end
